theory Spec2Isabelle
  imports Complex_Main "HOL-Library.Multiset" "HOL-Library.Word"
begin

unbundle bit_operations_syntax

section \<open>Library functions called by main.go\<close>

text \<open>
  A Go string is a sequence of bytes, here a \<open>string\<close> (a list of 8-bit characters).
  The functions of this section belong to Go's standard library; they are written out
  for Unix paths (separator \<open>/\<close>), for a 64-bit \<open>int\<close>, and on the bytes of UTF-8.
\<close>

subsection \<open>\<open>strings.ToLower\<close>, \<open>strings.TrimSpace\<close>, \<open>strings.TrimPrefix\<close>, \<open>strings.Split\<close>\<close>

definition lowerTable :: "(char \<times> char) list" where
  "lowerTable = zip ''ABCDEFGHIJKLMNOPQRSTUVWXYZ'' ''abcdefghijklmnopqrstuvwxyz''"

definition toLowerByte :: "char \<Rightarrow> char" where
  "toLowerByte c = (case map_of lowerTable c of Some d \<Rightarrow> d | None \<Rightarrow> c)"

definition byte :: "char \<Rightarrow> nat" where
  "byte c = of_char c"

definition isASCII :: "string \<Rightarrow> bool" where
  "isASCII s \<longleftrightarrow> list_all (\<lambda>c. byte c < 0x80) s"

text \<open>
  \<open>strings.TrimSpace\<close> removes leading and trailing white space as Unicode defines it
  (\<open>unicode.IsSpace\<close>): tab, line feed, vertical tab, form feed, carriage return and
  space, and the runes U+0085, U+00A0, U+1680, U+2000 to U+200A, U+2028, U+2029, U+202F,
  U+205F and U+3000. \<open>spaceRunes\<close> lists their UTF-8 encodings. The rune at the head of
  a string is one of them exactly when its encoding is a prefix of the string, and the
  last rune is one of them exactly when its encoding is a suffix. \<open>runeAt runes s\<close> is
  the length of the encoding at the head of \<open>s\<close>, or 0; \<open>trimLeft runes k s\<close> drops
  \<open>k\<close> bytes and then every such rune.
\<close>

definition spaceRunes :: "string list" where
  "spaceRunes =
     [[CHR 0x09], [CHR 0x0A], [CHR 0x0B], [CHR 0x0C], [CHR 0x0D], [CHR 0x20],
      [CHR 0xC2, CHR 0x85], [CHR 0xC2, CHR 0xA0], [CHR 0xE1, CHR 0x9A, CHR 0x80],
      [CHR 0xE2, CHR 0x80, CHR 0x80], [CHR 0xE2, CHR 0x80, CHR 0x81],
      [CHR 0xE2, CHR 0x80, CHR 0x82], [CHR 0xE2, CHR 0x80, CHR 0x83],
      [CHR 0xE2, CHR 0x80, CHR 0x84], [CHR 0xE2, CHR 0x80, CHR 0x85],
      [CHR 0xE2, CHR 0x80, CHR 0x86], [CHR 0xE2, CHR 0x80, CHR 0x87],
      [CHR 0xE2, CHR 0x80, CHR 0x88], [CHR 0xE2, CHR 0x80, CHR 0x89],
      [CHR 0xE2, CHR 0x80, CHR 0x8A], [CHR 0xE2, CHR 0x80, CHR 0xA8],
      [CHR 0xE2, CHR 0x80, CHR 0xA9], [CHR 0xE2, CHR 0x80, CHR 0xAF],
      [CHR 0xE2, CHR 0x81, CHR 0x9F], [CHR 0xE3, CHR 0x80, CHR 0x80]]"

definition runeAt :: "string list \<Rightarrow> string \<Rightarrow> nat" where
  "runeAt runes s =
     (case find (\<lambda>r. take (length r) s = r) runes of None \<Rightarrow> 0 | Some r \<Rightarrow> length r)"

fun trimLeft :: "string list \<Rightarrow> nat \<Rightarrow> string \<Rightarrow> string" where
  "trimLeft runes k [] = []"
| "trimLeft runes (Suc k) (c # cs) = trimLeft runes k cs"
| "trimLeft runes 0 (c # cs) =
     (case runeAt runes (c # cs) of 0 \<Rightarrow> c # cs | Suc n \<Rightarrow> trimLeft runes n cs)"

definition TrimSpace :: "string \<Rightarrow> string" where
  "TrimSpace s = rev (trimLeft (map rev spaceRunes) 0 (rev (trimLeft spaceRunes 0 s)))"

definition TrimPrefix :: "string \<Rightarrow> string \<Rightarrow> string" where
  "TrimPrefix s p = (if take (length p) s = p then drop (length p) s else s)"

text \<open>
  \<open>strings.Split s sep\<close> cuts \<open>s\<close> at every occurrence of \<open>sep\<close>, found from the left and
  without overlap; the result has one element more than there are occurrences, so it is
  never empty. \<open>splitFrom sep cur s\<close> reads \<open>s\<close> with the current piece \<open>cur\<close> held in
  reverse. The program splits on \<open>'' - ''\<close> and on \<open>''/''\<close> only; Go's special case of an
  empty separator (one piece per character) is not needed and not modelled.
\<close>

function splitFrom :: "string \<Rightarrow> string \<Rightarrow> string \<Rightarrow> string list" where
  "splitFrom sep cur [] = [rev cur]"
| "splitFrom sep cur (c # cs) =
     (if sep \<noteq> [] \<and> take (length sep) (c # cs) = sep
      then rev cur # splitFrom sep [] (drop (length sep) (c # cs))
      else splitFrom sep (c # cur) cs)"
  by pat_completeness auto
termination
  by (relation "measure (\<lambda>(sep, cur, s). length s)") auto

definition Split :: "string \<Rightarrow> string \<Rightarrow> string list" where
  "Split s sep = splitFrom sep [] s"

subsection \<open>\<open>filepath.Ext\<close> and \<open>filepath.Base\<close>\<close>

text \<open>
  \<open>Ext\<close> walks back from the end of the path until a separator and returns the suffix
  that starts at the first dot it meets; \<open>Ext_loop\<close> takes the path reversed and collects
  the bytes already passed.
\<close>

fun Ext_loop :: "string \<Rightarrow> string \<Rightarrow> string" where
  "Ext_loop [] suf = []"
| "Ext_loop (c # r) suf =
     (if c = CHR ''/'' then []
      else if c = CHR ''.'' then c # suf
      else Ext_loop r (c # suf))"

definition Ext :: "string \<Rightarrow> string" where
  "Ext path = Ext_loop (rev path) []"

definition Base :: "string \<Rightarrow> string" where
  "Base path =
     (if path = [] then ''.''
      else let stripped = rev (dropWhile (\<lambda>c. c = CHR ''/'') (rev path));
               elem = rev (takeWhile (\<lambda>c. c \<noteq> CHR ''/'') (rev stripped))
           in if elem = [] then ''/'' else elem)"

subsection \<open>\<open>strconv.Atoi\<close>\<close>

text \<open>
  \<open>Atoi\<close> returns a value and an error. The program drops the error
  (\<open>numI, _ := strconv.Atoi(...)\<close>), so the value returned beside an error matters.
  After an optional sign the digits are read from the left (\<open>ParseUint\<close>): a byte that
  is not a digit ends the reading with a syntax error and the value 0; digits that
  leave the range of \<open>uint64\<close> end it at once with a range error, whatever follows. A
  range error, and a number outside the 64-bit \<open>int\<close>, give the nearest bound of
  \<open>int\<close>.
\<close>

datatype num_error = ErrSyntax | ErrRange

definition digitVal :: "char \<Rightarrow> int option" where
  "digitVal = map_of (zip ''0123456789'' [0, 1, 2, 3, 4, 5, 6, 7, 8, 9])"

definition maxUint64 :: int where
  "maxUint64 = 2 ^ 64 - 1"

fun ParseUint :: "int \<Rightarrow> string \<Rightarrow> num_error + int" where
  "ParseUint n [] = Inr n"
| "ParseUint n (c # cs) =
     (case digitVal c of
        None \<Rightarrow> Inl ErrSyntax
      | Some d \<Rightarrow> if maxUint64 < n * 10 + d then Inl ErrRange else ParseUint (n * 10 + d) cs)"

fun signOf :: "string \<Rightarrow> bool \<times> string" where
  "signOf [] = (False, [])"
| "signOf (c # cs) =
     (if c = CHR ''-'' then (True, cs)
      else if c = CHR ''+'' then (False, cs)
      else (False, c # cs))"

definition maxInt :: int where
  "maxInt = 2 ^ 63 - 1"

definition minInt :: int where
  "minInt = - (2 ^ 63)"

definition Atoi :: "string \<Rightarrow> int \<times> num_error option" where
  "Atoi s =
     (case signOf s of (neg, ds) \<Rightarrow>
        if ds = [] then (0, Some ErrSyntax)
        else (case ParseUint 0 ds of
                Inl ErrSyntax \<Rightarrow> (0, Some ErrSyntax)
              | Inl ErrRange \<Rightarrow> (if neg then minInt else maxInt, Some ErrRange)
              | Inr un \<Rightarrow>
                  if neg then (if - un < minInt then (minInt, Some ErrRange) else (- un, None))
                  else (if maxInt < un then (maxInt, Some ErrRange) else (un, None))))"

subsection \<open>\<open>sort.Slice\<close>\<close>

text \<open>
  \<open>sort.Slice\<close> is a parameter of the model. Its documentation promises a slice sorted
  by the \<open>less\<close> function given and states that the sort is not guaranteed to be stable:
  equal elements may be reversed from their original order. \<open>sortSlice_contract\<close> is that
  promise for a \<open>less\<close> that is a strict weak ordering: the result is a rearrangement of
  the input in which no element is less than an earlier one.
\<close>

type_synonym 'a sorter = "('a \<Rightarrow> 'a \<Rightarrow> bool) \<Rightarrow> 'a list \<Rightarrow> 'a list"

definition strict_weak :: "('a \<Rightarrow> 'a \<Rightarrow> bool) \<Rightarrow> bool" where
  "strict_weak lt \<longleftrightarrow>
     (\<forall>a b. lt a b \<longrightarrow> \<not> lt b a) \<and> (\<forall>a b c. lt a c \<longrightarrow> lt a b \<or> lt b c)"

definition sortSlice_contract :: "'a sorter \<Rightarrow> bool" where
  "sortSlice_contract srt \<longleftrightarrow>
     (\<forall>lt xs. strict_weak lt \<longrightarrow>
        mset (srt lt xs) = mset xs \<and> sorted_wrt (\<lambda>a b. \<not> lt b a) (srt lt xs))"

text \<open>
  \<open>insertionSort_func\<close> is the insertion sort of Go's sort package: element \<open>i\<close> moves
  left while it is less than its left neighbour (\<open>bubble\<close>, on the sorted prefix held
  in reverse). It keeps the promise of \<open>sort.Slice\<close>, and it is what \<open>sort.Slice\<close>
  runs on a slice of at most 12 elements.
\<close>

fun bubble :: "('a \<Rightarrow> 'a \<Rightarrow> bool) \<Rightarrow> 'a \<Rightarrow> 'a list \<Rightarrow> 'a list" where
  "bubble lt x [] = [x]"
| "bubble lt x (y # ys) = (if lt x y then y # bubble lt x ys else x # y # ys)"

definition insertionSort_func :: "'a sorter" where
  "insertionSort_func lt xs = rev (foldl (\<lambda>sorted_prefix x. bubble lt x sorted_prefix) [] xs)"

subsection \<open>The algorithm of \<open>sort.Slice\<close>\<close>

text \<open>
  Since Go 1.19 \<open>sort.Slice\<close> is a pattern-defeating quicksort (\<open>pdqsort_func\<close> in
  \<open>sort/zsortfunc.go\<close>), written out here from the Go source: insertion sort for at
  most 12 elements, heap sort when \<open>limit\<close> is used up, otherwise a pivot chosen as a
  median, a partition around it, and the two parts sorted in turn. The slice is a list,
  \<open>Less\<close> and \<open>Swap\<close> are the two operations the algorithm has on it, and indices are
  Go's \<open>int\<close>. Every inner loop is a recursive function with its measure; the main loop
  \<open>pdqsort_func\<close> takes fuel, one unit for each turn of the loop and each nested call,
  and \<open>Slice\<close> gives it more than it needs.
\<close>

definition Less :: "('a \<Rightarrow> 'a \<Rightarrow> bool) \<Rightarrow> 'a list \<Rightarrow> int \<Rightarrow> int \<Rightarrow> bool" where
  "Less lt data i j \<longleftrightarrow> lt (data ! nat i) (data ! nat j)"

definition Swap :: "'a list \<Rightarrow> int \<Rightarrow> int \<Rightarrow> 'a list" where
  "Swap data i j = data[nat i := data ! nat j, nat j := data ! nat i]"

definition insertionSort_range :: "('a \<Rightarrow> 'a \<Rightarrow> bool) \<Rightarrow> 'a list \<Rightarrow> int \<Rightarrow> int \<Rightarrow> 'a list" where
  "insertionSort_range lt data a b =
     take (nat a) data @ insertionSort_func lt (take (nat (b - a)) (drop (nat a) data))
       @ drop (nat b) data"

function siftDown_func :: "('a \<Rightarrow> 'a \<Rightarrow> bool) \<Rightarrow> 'a list \<Rightarrow> nat \<Rightarrow> nat \<Rightarrow> nat \<Rightarrow> 'a list" where
  "siftDown_func lt data parent hi first =
     (let child = 2 * parent + 1 in
      if child \<ge> hi then data
      else
        let child = (if child + 1 < hi \<and> Less lt data (int (first + child)) (int (first + child + 1))
                     then child + 1 else child)
        in if \<not> Less lt data (int (first + parent)) (int (first + child)) then data
           else siftDown_func lt (Swap data (int (first + parent)) (int (first + child))) child hi first)"
  by pat_completeness auto
termination
  by (relation "measure (\<lambda>(lt, data, parent, hi, first). hi - parent)") (auto simp: Let_def)

declare siftDown_func.simps [simp del]

definition heapSort_func :: "('a \<Rightarrow> 'a \<Rightarrow> bool) \<Rightarrow> 'a list \<Rightarrow> int \<Rightarrow> int \<Rightarrow> 'a list" where
  "heapSort_func lt data a b =
     (let first = nat a; hi = nat (b - a);
          heap = foldl (\<lambda>d i. siftDown_func lt d i hi first) data (rev [0 ..< Suc ((hi - 1) div 2)])
      in foldl (\<lambda>d i. siftDown_func lt (Swap d (int first) (int (first + i))) 0 i first)
           heap (rev [0 ..< hi]))"

function scanUp :: "('a \<Rightarrow> 'a \<Rightarrow> bool) \<Rightarrow> 'a list \<Rightarrow> int \<Rightarrow> int \<Rightarrow> int \<Rightarrow> int" where
  "scanUp lt data a i j = (if i \<le> j \<and> Less lt data i a then scanUp lt data a (i + 1) j else i)"
  by pat_completeness auto
termination
  by (relation "measure (\<lambda>(lt, data, a, i, j). nat (j - i + 1))") auto

declare scanUp.simps [simp del]

function scanDown :: "('a \<Rightarrow> 'a \<Rightarrow> bool) \<Rightarrow> 'a list \<Rightarrow> int \<Rightarrow> int \<Rightarrow> int \<Rightarrow> int" where
  "scanDown lt data a i j = (if i \<le> j \<and> \<not> Less lt data j a then scanDown lt data a i (j - 1) else j)"
  by pat_completeness auto
termination
  by (relation "measure (\<lambda>(lt, data, a, i, j). nat (j - i + 1))") auto

declare scanDown.simps [simp del]

function partitionLoop ::
  "('a \<Rightarrow> 'a \<Rightarrow> bool) \<Rightarrow> 'a list \<Rightarrow> int \<Rightarrow> int \<Rightarrow> int \<Rightarrow> 'a list \<times> int" where
  "partitionLoop lt data a i j =
     (let i = scanUp lt data a i j; j = scanDown lt data a i j in
      if i > j then (data, j)
      else partitionLoop lt (Swap data i j) a (i + 1) (j - 1))"
  by pat_completeness auto
termination
proof (relation "measure (\<lambda>(lt, data, a, i, j). nat (j - i + 1))")
  have up: "i \<le> scanUp lt data a i j" for lt :: "'a \<Rightarrow> 'a \<Rightarrow> bool" and data a i j
    by (induction lt data a i j rule: scanUp.induct) (subst scanUp.simps, auto)
  have down: "scanDown lt data a i j \<le> j" for lt :: "'a \<Rightarrow> 'a \<Rightarrow> bool" and data a i j
    by (induction lt data a i j rule: scanDown.induct) (subst scanDown.simps, auto)
  fix lt :: "'a \<Rightarrow> 'a \<Rightarrow> bool" and data a i j x xa
  assume "x = scanUp lt data a i j" and "xa = scanDown lt data a x j" and "\<not> xa < x"
  then show "((lt, Swap data x xa, a, x + 1, xa - 1), lt, data, a, i, j)
               \<in> measure (\<lambda>(lt, data, a, i, j). nat (j - i + 1))"
    using up [of i lt data a j] down [of lt data a x j] by simp
qed simp

declare partitionLoop.simps [simp del]

definition partition_func ::
  "('a \<Rightarrow> 'a \<Rightarrow> bool) \<Rightarrow> 'a list \<Rightarrow> int \<Rightarrow> int \<Rightarrow> int \<Rightarrow> 'a list \<times> int \<times> bool" where
  "partition_func lt data a b pivot =
     (let data = Swap data a pivot;
          i = scanUp lt data a (a + 1) (b - 1);
          j = scanDown lt data a i (b - 1)
      in if i > j then (Swap data j a, j, True)
         else (case partitionLoop lt (Swap data i j) a (i + 1) (j - 1) of
                 (data, j) \<Rightarrow> (Swap data j a, j, False)))"


function scanUpEq :: "('a \<Rightarrow> 'a \<Rightarrow> bool) \<Rightarrow> 'a list \<Rightarrow> int \<Rightarrow> int \<Rightarrow> int \<Rightarrow> int" where
  "scanUpEq lt data a i j = (if i \<le> j \<and> \<not> Less lt data a i then scanUpEq lt data a (i + 1) j else i)"
  by pat_completeness auto
termination
  by (relation "measure (\<lambda>(lt, data, a, i, j). nat (j - i + 1))") auto

declare scanUpEq.simps [simp del]

function scanDownEq :: "('a \<Rightarrow> 'a \<Rightarrow> bool) \<Rightarrow> 'a list \<Rightarrow> int \<Rightarrow> int \<Rightarrow> int \<Rightarrow> int" where
  "scanDownEq lt data a i j = (if i \<le> j \<and> Less lt data a j then scanDownEq lt data a i (j - 1) else j)"
  by pat_completeness auto
termination
  by (relation "measure (\<lambda>(lt, data, a, i, j). nat (j - i + 1))") auto

declare scanDownEq.simps [simp del]

function partitionEqualLoop ::
  "('a \<Rightarrow> 'a \<Rightarrow> bool) \<Rightarrow> 'a list \<Rightarrow> int \<Rightarrow> int \<Rightarrow> int \<Rightarrow> 'a list \<times> int" where
  "partitionEqualLoop lt data a i j =
     (let i = scanUpEq lt data a i j; j = scanDownEq lt data a i j in
      if i > j then (data, i)
      else partitionEqualLoop lt (Swap data i j) a (i + 1) (j - 1))"
  by pat_completeness auto
termination
proof (relation "measure (\<lambda>(lt, data, a, i, j). nat (j - i + 1))")
  have up: "i \<le> scanUpEq lt data a i j" for lt :: "'a \<Rightarrow> 'a \<Rightarrow> bool" and data a i j
    by (induction lt data a i j rule: scanUpEq.induct) (subst scanUpEq.simps, auto)
  have down: "scanDownEq lt data a i j \<le> j" for lt :: "'a \<Rightarrow> 'a \<Rightarrow> bool" and data a i j
    by (induction lt data a i j rule: scanDownEq.induct) (subst scanDownEq.simps, auto)
  fix lt :: "'a \<Rightarrow> 'a \<Rightarrow> bool" and data a i j x xa
  assume "x = scanUpEq lt data a i j" and "xa = scanDownEq lt data a x j" and "\<not> xa < x"
  then show "((lt, Swap data x xa, a, x + 1, xa - 1), lt, data, a, i, j)
               \<in> measure (\<lambda>(lt, data, a, i, j). nat (j - i + 1))"
    using up [of i lt data a j] down [of lt data a x j] by simp
qed simp

declare partitionEqualLoop.simps [simp del]

definition partitionEqual_func ::
  "('a \<Rightarrow> 'a \<Rightarrow> bool) \<Rightarrow> 'a list \<Rightarrow> int \<Rightarrow> int \<Rightarrow> int \<Rightarrow> 'a list \<times> int" where
  "partitionEqual_func lt data a b pivot =
     partitionEqualLoop lt (Swap data a pivot) a (a + 1) (b - 1)"

function skipSorted :: "('a \<Rightarrow> 'a \<Rightarrow> bool) \<Rightarrow> 'a list \<Rightarrow> int \<Rightarrow> int \<Rightarrow> int" where
  "skipSorted lt data i b = (if i < b \<and> \<not> Less lt data i (i - 1) then skipSorted lt data (i + 1) b else i)"
  by pat_completeness auto
termination
  by (relation "measure (\<lambda>(lt, data, i, b). nat (b - i))") auto

declare skipSorted.simps [simp del]

function shiftLeft :: "('a \<Rightarrow> 'a \<Rightarrow> bool) \<Rightarrow> 'a list \<Rightarrow> int \<Rightarrow> 'a list" where
  "shiftLeft lt data j =
     (if j \<ge> 1 \<and> Less lt data j (j - 1) then shiftLeft lt (Swap data j (j - 1)) (j - 1) else data)"
  by pat_completeness auto
termination
  by (relation "measure (\<lambda>(lt, data, j). nat j)") auto

declare shiftLeft.simps [simp del]

function shiftRight :: "('a \<Rightarrow> 'a \<Rightarrow> bool) \<Rightarrow> 'a list \<Rightarrow> int \<Rightarrow> int \<Rightarrow> 'a list" where
  "shiftRight lt data j b =
     (if j < b \<and> Less lt data j (j - 1) then shiftRight lt (Swap data j (j - 1)) (j + 1) b else data)"
  by pat_completeness auto
termination
  by (relation "measure (\<lambda>(lt, data, j, b). nat (b - j))") auto

declare shiftRight.simps [simp del]

fun partialInsertionSteps ::
  "nat \<Rightarrow> ('a \<Rightarrow> 'a \<Rightarrow> bool) \<Rightarrow> 'a list \<Rightarrow> int \<Rightarrow> int \<Rightarrow> int \<Rightarrow> 'a list \<times> bool" where
  "partialInsertionSteps 0 lt data a b i = (data, False)"
| "partialInsertionSteps (Suc steps) lt data a b i =
     (let i = skipSorted lt data i b in
      if i = b then (data, True)
      else if b - a < 50 then (data, False)
      else
        let data = Swap data i (i - 1);
            data = (if i - a \<ge> 2 then shiftLeft lt data (i - 1) else data);
            data = (if b - i \<ge> 2 then shiftRight lt data (i + 1) b else data)
        in partialInsertionSteps steps lt data a b i)"

definition partialInsertionSort_func ::
  "('a \<Rightarrow> 'a \<Rightarrow> bool) \<Rightarrow> 'a list \<Rightarrow> int \<Rightarrow> int \<Rightarrow> 'a list \<times> bool" where
  "partialInsertionSort_func lt data a b = partialInsertionSteps 5 lt data a b (a + 1)"

fun bitsLen :: "nat \<Rightarrow> nat" where
  "bitsLen n = (if n = 0 then 0 else Suc (bitsLen (n div 2)))"

declare bitsLen.simps [simp del]

definition xorshift_Next :: "64 word \<Rightarrow> 64 word" where
  "xorshift_Next r =
     (let r = r XOR push_bit 13 r; r = r XOR drop_bit 7 r; r = r XOR push_bit 17 r in r)"

fun breakSwaps :: "nat \<Rightarrow> 'a list \<Rightarrow> 64 word \<Rightarrow> int \<Rightarrow> int \<Rightarrow> int \<Rightarrow> int \<Rightarrow> 'a list" where
  "breakSwaps 0 data random a len idx i = data"
| "breakSwaps (Suc k) data random a len idx i =
     (let random = xorshift_Next random;
          other = int (unat (random AND (push_bit (bitsLen (nat len)) 1 - 1)));
          other = (if other \<ge> len then other - len else other)
      in breakSwaps k (Swap data (idx - 1 + i) (a + other)) random a len idx (i + 1))"

definition breakPatterns_func :: "'a list \<Rightarrow> int \<Rightarrow> int \<Rightarrow> 'a list" where
  "breakPatterns_func data a b =
     (let len = b - a in
      if len \<ge> 8 then breakSwaps 3 data (word_of_int len) a len (a + (len div 4) * 2 - 1) 0
      else data)"

datatype sortedHint = unknownHint | increasingHint | decreasingHint

definition order2_func ::
  "('a \<Rightarrow> 'a \<Rightarrow> bool) \<Rightarrow> 'a list \<Rightarrow> int \<Rightarrow> int \<Rightarrow> nat \<Rightarrow> int \<times> int \<times> nat" where
  "order2_func lt data a b swaps = (if Less lt data b a then (b, a, swaps + 1) else (a, b, swaps))"

definition median_func ::
  "('a \<Rightarrow> 'a \<Rightarrow> bool) \<Rightarrow> 'a list \<Rightarrow> int \<Rightarrow> int \<Rightarrow> int \<Rightarrow> nat \<Rightarrow> int \<times> nat" where
  "median_func lt data a b c swaps =
     (case order2_func lt data a b swaps of (a, b, swaps) \<Rightarrow>
      case order2_func lt data b c swaps of (b, c, swaps) \<Rightarrow>
      case order2_func lt data a b swaps of (a, b, swaps) \<Rightarrow> (b, swaps))"

definition medianAdjacent_func ::
  "('a \<Rightarrow> 'a \<Rightarrow> bool) \<Rightarrow> 'a list \<Rightarrow> int \<Rightarrow> nat \<Rightarrow> int \<times> nat" where
  "medianAdjacent_func lt data a swaps = median_func lt data (a - 1) a (a + 1) swaps"

definition choosePivot_func ::
  "('a \<Rightarrow> 'a \<Rightarrow> bool) \<Rightarrow> 'a list \<Rightarrow> int \<Rightarrow> int \<Rightarrow> int \<times> sortedHint" where
  "choosePivot_func lt data a b =
     (let l = b - a;
          i = a + l div 4 * 1;
          j = a + l div 4 * 2;
          k = a + l div 4 * 3;
          (j, swaps) =
            (if l \<ge> 8 then
               (if l \<ge> 50 then
                  (case medianAdjacent_func lt data i 0 of (i, swaps) \<Rightarrow>
                   case medianAdjacent_func lt data j swaps of (j, swaps) \<Rightarrow>
                   case medianAdjacent_func lt data k swaps of (k, swaps) \<Rightarrow>
                     median_func lt data i j k swaps)
                else median_func lt data i j k 0)
             else (j, 0))
      in if swaps = 0 then (j, increasingHint)
         else if swaps = 12 then (j, decreasingHint)
         else (j, unknownHint))"

function reverseRange_loop :: "'a list \<Rightarrow> int \<Rightarrow> int \<Rightarrow> 'a list" where
  "reverseRange_loop data i j = (if i < j then reverseRange_loop (Swap data i j) (i + 1) (j - 1) else data)"
  by pat_completeness auto
termination
  by (relation "measure (\<lambda>(data, i, j). nat (j - i))") auto

declare reverseRange_loop.simps [simp del]

definition reverseRange_func :: "'a list \<Rightarrow> int \<Rightarrow> int \<Rightarrow> 'a list" where
  "reverseRange_func data a b = reverseRange_loop data a (b - 1)"

fun pdqsort_func ::
  "nat \<Rightarrow> ('a \<Rightarrow> 'a \<Rightarrow> bool) \<Rightarrow> 'a list \<Rightarrow> int \<Rightarrow> int \<Rightarrow> nat \<Rightarrow> bool \<Rightarrow> bool \<Rightarrow> 'a list option" where
  "pdqsort_func 0 lt data a b limit wasBalanced wasPartitioned = None"
| "pdqsort_func (Suc fuel) lt data a b limit wasBalanced wasPartitioned =
     (let len = b - a in
      if len \<le> 12 then Some (insertionSort_range lt data a b)
      else if limit = 0 then Some (heapSort_func lt data a b)
      else
        let data = (if \<not> wasBalanced then breakPatterns_func data a b else data);
            limit = (if \<not> wasBalanced then limit - 1 else limit);
            (pivot, hint) = choosePivot_func lt data a b;
            (data, pivot, hint) =
              (if hint = decreasingHint
               then (reverseRange_func data a b, (b - 1) - (pivot - a), increasingHint)
               else (data, pivot, hint));
            (data, isSorted) =
              (if wasBalanced \<and> wasPartitioned \<and> hint = increasingHint
               then partialInsertionSort_func lt data a b else (data, False))
        in if isSorted then Some data
           else if a > 0 \<and> \<not> Less lt data (a - 1) pivot then
             (case partitionEqual_func lt data a b pivot of
                (data, mid) \<Rightarrow> pdqsort_func fuel lt data mid b limit wasBalanced wasPartitioned)
           else
             (case partition_func lt data a b pivot of
                (data, mid, alreadyPartitioned) \<Rightarrow>
                  let leftLen = mid - a; rightLen = b - mid; balanceThreshold = len div 8 in
                  if leftLen < rightLen then
                    (case pdqsort_func fuel lt data a mid limit True True of
                       None \<Rightarrow> None
                     | Some data \<Rightarrow>
                         pdqsort_func fuel lt data (mid + 1) b limit
                           (leftLen \<ge> balanceThreshold) alreadyPartitioned)
                  else
                    (case pdqsort_func fuel lt data (mid + 1) b limit True True of
                       None \<Rightarrow> None
                     | Some data \<Rightarrow>
                         pdqsort_func fuel lt data a mid limit
                           (rightLen \<ge> balanceThreshold) alreadyPartitioned)))"

definition Slice :: "('a \<Rightarrow> 'a \<Rightarrow> bool) \<Rightarrow> 'a list \<Rightarrow> 'a list option" where
  "Slice lt x =
     pdqsort_func (Suc (length x)) lt x 0 (int (length x)) (bitsLen (length x)) True True"

text \<open>
  The sorter as a function on lists. \<open>Slice\<close> always returns a list, as is proved
  below (\<open>Slice_returns\<close>), so the second case is never reached.
\<close>

definition sort_Slice_go :: "'a sorter" where
  "sort_Slice_go lt x = (case Slice lt x of Some y \<Rightarrow> y | None \<Rightarrow> x)"

section \<open>Data model\<close>

text \<open>
  \<open>time.Time\<close> is an instant, counted from the zero value of the type. \<open>float64\<close> keeps
  the finite values (as the real numbers they denote) apart from the infinities and
  NaN, which \<open>encoding/json\<close> refuses to encode.
\<close>

type_synonym time = int

datatype float64 = Finite real | PosInf | NegInf | NaN

fun isFinite :: "float64 \<Rightarrow> bool" where
  "isFinite (Finite x) = True"
| "isFinite PosInf = False"
| "isFinite NegInf = False"
| "isFinite NaN = False"

record VideoFile =
  Name :: string
  Path :: string
  Viewed :: bool
  Current :: time
  Progress :: float64

text \<open>The zero value of the struct: what a Go map returns for a missing key.\<close>

definition zeroVideoFile :: VideoFile where
  "zeroVideoFile = \<lparr>Name = [], Path = [], Viewed = False, Current = 0, Progress = Finite 0\<rparr>"

datatype os_error = ErrNotExist | ErrPermission | ErrIsDir | ErrIO

datatype error = SyntaxError | UnsupportedValue | WalkFailed os_error

text \<open>
  \<open>encoding/json\<close> writes a string rune by rune and writes the replacement rune U+FFFD
  for every byte at which \<open>utf8.DecodeRuneInString\<close> finds no valid encoding; so this
  is what comes back on decoding. \<open>runeLen s\<close> is the length of the valid encoding at
  the head of \<open>s\<close>, or 0 when there is none; \<open>coerceFrom k s\<close> copies \<open>k\<close> bytes and
  then replaces every invalid byte.
\<close>

definition inRange :: "nat \<Rightarrow> nat \<Rightarrow> char \<Rightarrow> bool" where
  "inRange lo hi c \<longleftrightarrow> lo \<le> byte c \<and> byte c \<le> hi"

fun runeLen :: "string \<Rightarrow> nat" where
  "runeLen [] = 0"
| "runeLen (b0 # rest) =
     (let x = byte b0 in
      if x < 0x80 then 1
      else if 0xC2 \<le> x \<and> x \<le> 0xDF then
        (case rest of
           b1 # _ \<Rightarrow> if inRange 0x80 0xBF b1 then 2 else 0
         | _ \<Rightarrow> 0)
      else if 0xE0 \<le> x \<and> x \<le> 0xEF then
        (case rest of
           b1 # b2 # _ \<Rightarrow>
             if inRange (if x = 0xE0 then 0xA0 else 0x80) (if x = 0xED then 0x9F else 0xBF) b1
                \<and> inRange 0x80 0xBF b2
             then 3 else 0
         | _ \<Rightarrow> 0)
      else if 0xF0 \<le> x \<and> x \<le> 0xF4 then
        (case rest of
           b1 # b2 # b3 # _ \<Rightarrow>
             if inRange (if x = 0xF0 then 0x90 else 0x80) (if x = 0xF4 then 0x8F else 0xBF) b1
                \<and> inRange 0x80 0xBF b2 \<and> inRange 0x80 0xBF b3
             then 4 else 0
         | _ \<Rightarrow> 0)
      else 0)"

fun coerceFrom :: "nat \<Rightarrow> string \<Rightarrow> string" where
  "coerceFrom k [] = []"
| "coerceFrom (Suc k) (b # bs) = b # coerceFrom k bs"
| "coerceFrom 0 (b # bs) =
     (case runeLen (b # bs) of
        0 \<Rightarrow> [CHR 0xEF, CHR 0xBF, CHR 0xBD] @ coerceFrom 0 bs
      | Suc n \<Rightarrow> b # coerceFrom n bs)"

definition jsonString :: "string \<Rightarrow> string" where
  "jsonString s = coerceFrom 0 s"

definition decoded :: "VideoFile \<Rightarrow> VideoFile" where
  "decoded v = v\<lparr>Name := jsonString (Name v), Path := jsonString (Path v)\<rparr>"

text \<open>
  The bytes of \<open>video_data.json\<close>: \<open>Encoded vs\<close> is the text that \<open>json.Marshal\<close> and
  \<open>json.Indent\<close> produce for the entry list \<open>vs\<close>, and \<open>Garbage s\<close> is a text that does
  not decode to a list of entries. Decoding the text written for \<open>vs\<close> gives \<open>vs\<close>
  back with the names and paths as JSON keeps them. \<open>json.Marshal\<close> fails on a
  progress value that is infinite or NaN. \<open>json.Indent\<close> does not fail on the output
  of \<open>json.Marshal\<close>.
\<close>

datatype content = Garbage string | Encoded "VideoFile list"

definition json_Unmarshal :: "content \<Rightarrow> error + VideoFile list" where
  "json_Unmarshal c =
     (case c of Garbage s \<Rightarrow> Inl SyntaxError | Encoded vs \<Rightarrow> Inr (map decoded vs))"

definition json_Marshal :: "VideoFile list \<Rightarrow> error + content" where
  "json_Marshal vs =
     (if list_all (\<lambda>v. isFinite (Progress v)) vs then Inr (Encoded vs) else Inl UnsupportedValue)"

section \<open>Parameters of the model\<close>

text \<open>
  A parsed URL: \<open>query\<close> is the \<open>url.Values\<close> map of \<open>Query()\<close>, as an association
  list from keys to their values; \<open>location\<close> is everything else.
\<close>

record url =
  location :: string
  query :: "(string \<times> string list) list"

definition Del :: "string \<Rightarrow> (string \<times> string list) list \<Rightarrow> (string \<times> string list) list" where
  "Del key q = filter (\<lambda>kv. fst kv \<noteq> key) q"

text \<open>
  \<open>strconv.ParseFloat\<close> and \<open>url.Parse\<close> are parameters like \<open>sort.Slice\<close>; \<open>None\<close>
  stands for a returned error. \<open>Map_ToLower\<close> is \<open>strings.Map(unicode.ToLower, s)\<close>, which
  \<open>strings.ToLower\<close> calls for a string with a byte from 0x80 on; it follows the case
  tables of Unicode, where for instance the Kelvin sign U+212A becomes \<open>k\<close>.
\<close>

record stdlib =
  sort_Slice :: "VideoFile sorter"
  ParseFloat :: "string \<Rightarrow> float64 option"
  url_Parse :: "string \<Rightarrow> url option"
  Map_ToLower :: "string \<Rightarrow> string"

text \<open>
  \<open>strings.ToLower\<close>: a string of ASCII bytes is lower-cased byte by byte, any other
  string rune by rune.
\<close>

definition ToLower :: "stdlib \<Rightarrow> string \<Rightarrow> string" where
  "ToLower lib s = (if isASCII s then map toLowerByte s else Map_ToLower lib s)"

section \<open>The viewing-state store: \<open>loadViewedVideos\<close>\<close>

text \<open>
  The argument is the result of \<open>os.ReadFile\<close> on \<open>video_data.json\<close> under the root:
  an error or the content. Every read error gives the empty map and no error.
\<close>

definition loadViewedVideos :: "os_error + content \<Rightarrow> error + (string \<rightharpoonup> VideoFile)" where
  "loadViewedVideos file =
     (case file of
        Inl err \<Rightarrow> Inr Map.empty
      | Inr jsonData \<Rightarrow>
          (case json_Unmarshal jsonData of
             Inl err \<Rightarrow> Inl err
           | Inr savedVideos \<Rightarrow> Inr (foldl (\<lambda>m v. m(Name v \<mapsto> v)) Map.empty savedVideos)))"

definition lookupVideo :: "(string \<rightharpoonup> VideoFile) \<Rightarrow> string \<Rightarrow> VideoFile" where
  "lookupVideo viewedVideos base =
     (case viewedVideos base of None \<Rightarrow> zeroVideoFile | Some v \<Rightarrow> v)"

section \<open>The library scanner: \<open>loadVideoFiles\<close>\<close>

text \<open>
  \<open>filepath.Walk\<close> calls the function it is given once per directory entry, in lexical
  order, with the path and either the file information or an error. A walk is the list
  of these calls.
\<close>

datatype walk_item = Failed string os_error | Dir string | File string

definition videoExtensions :: "string \<Rightarrow> bool" where
  "videoExtensions ext \<longleftrightarrow>
     ext \<in> set [''.mp4'', ''.avi'', ''.mkv'', ''.mov'', ''.wmv'', ''.flv'', ''.webm'']"

definition newVideoFile :: "(string \<rightharpoonup> VideoFile) \<Rightarrow> string \<Rightarrow> VideoFile" where
  "newVideoFile viewedVideos path =
     (let base = Base path in
      \<lparr>Name = base, Path = path,
       Viewed = Viewed (lookupVideo viewedVideos base),
       Current = Current (lookupVideo viewedVideos base),
       Progress = Progress (lookupVideo viewedVideos base)\<rparr>)"

text \<open>
  The walk function: an error stops the walk and is returned, a directory is passed
  over, a file with a video extension is appended to \<open>videoFiles\<close>.
\<close>

fun walkFn ::
  "stdlib \<Rightarrow> (string \<rightharpoonup> VideoFile) \<Rightarrow> walk_item list \<Rightarrow> VideoFile list \<Rightarrow> error + VideoFile list" where
  "walkFn lib viewedVideos [] videoFiles = Inr videoFiles"
| "walkFn lib viewedVideos (Failed path err # rest) videoFiles = Inl (WalkFailed err)"
| "walkFn lib viewedVideos (Dir path # rest) videoFiles = walkFn lib viewedVideos rest videoFiles"
| "walkFn lib viewedVideos (File path # rest) videoFiles =
     (if videoExtensions (ToLower lib (Ext path))
      then walkFn lib viewedVideos rest (videoFiles @ [newVideoFile viewedVideos path])
      else walkFn lib viewedVideos rest videoFiles)"

definition orderKey :: "string \<Rightarrow> int" where
  "orderKey name = fst (Atoi (TrimSpace (hd (Split name '' - ''))))"

definition lessByNumber :: "VideoFile \<Rightarrow> VideoFile \<Rightarrow> bool" where
  "lessByNumber a b \<longleftrightarrow> orderKey (Name a) < orderKey (Name b)"

definition loadVideoFiles ::
  "stdlib \<Rightarrow> os_error + content \<Rightarrow> walk_item list \<Rightarrow> error + VideoFile list" where
  "loadVideoFiles lib file walk =
     (case loadViewedVideos file of
        Inl err \<Rightarrow> Inl err
      | Inr viewedVideos \<Rightarrow>
          (case walkFn lib viewedVideos walk [] of
             Inl err \<Rightarrow> Inl err
           | Inr videoFiles \<Rightarrow> Inr (sort_Slice lib lessByNumber videoFiles)))"

section \<open>The process and its environment\<close>

text \<open>
  \<open>world\<close> is what the handlers share and change: the slice \<open>videoFiles\<close> that
  \<open>main\<close> loads once and every closure captures, the file \<open>video_data.json\<close> under
  the root (as \<open>os.ReadFile\<close> would return it), and the lines written by \<open>log.Printf\<close>.
  \<open>env\<close> is what the outside decides at each request: the clock, whether and how
  \<open>os.WriteFile\<close> fails, the directory walk and the readme files. \<open>os.WriteFile\<close>
  opens the file with truncation and then writes: when the open fails the file is as
  it was (\<open>AtOpen\<close>); when the write or the close fails, the file holds what got
  written, which the outside decides (\<open>AfterOpen\<close>), in general a cut-off text. The
  template and the folder name it shows are constants of the process and left out, as
  is the output of \<open>debug\<close>.
\<close>

datatype write_failure = AtOpen os_error | AfterOpen os_error content

record world =
  videoFiles :: "VideoFile list"
  dataFile :: "os_error + content"
  logged :: "string list"

record env =
  now :: time
  writeFails :: "write_failure option"
  walk :: "walk_item list"
  readme :: "string \<Rightarrow> string option"

record request =
  urlPath :: string
  ended :: string
  referer :: string

record TemplateData =
  ReadmeContent :: string
  Videos :: "VideoFile list"
  CurrentVideo :: string
  CurrentVideoFile :: "VideoFile option"

datatype redirect_target = Home | Referer url

datatype response =
    Rendered TemplateData
  | NotFound
  | HttpError string nat
  | Redirect redirect_target nat
  | WriteHeader nat
  | ServeFile string
  | Panic

text \<open>The status code of a response; that of \<open>http.ServeFile\<close> is its own affair.\<close>

fun statusCode :: "response \<Rightarrow> nat option" where
  "statusCode (Rendered data) = Some 200"
| "statusCode NotFound = Some 404"
| "statusCode (HttpError msg code) = Some code"
| "statusCode (Redirect target code) = Some code"
| "statusCode (WriteHeader code) = Some code"
| "statusCode (ServeFile path) = None"
| "statusCode Panic = None"

section \<open>Saving: \<open>saveViewedVideos\<close>\<close>

text \<open>
  Both failures are logged and nothing else: the function has no result, so its callers
  go on as after a successful save.
\<close>

definition saveViewedVideos :: "VideoFile list \<Rightarrow> env \<Rightarrow> world \<Rightarrow> world" where
  "saveViewedVideos vs e w =
     (case json_Marshal vs of
        Inl err \<Rightarrow> w\<lparr>logged := logged w @ [''Error marshaling video files'']\<rparr>
      | Inr prettyJSON \<Rightarrow>
          (case writeFails e of
             None \<Rightarrow> w\<lparr>dataFile := Inr prettyJSON\<rparr>
           | Some (AtOpen err) \<Rightarrow> w\<lparr>logged := logged w @ [''Error saving viewed videos'']\<rparr>
           | Some (AfterOpen err left) \<Rightarrow>
               w\<lparr>dataFile := Inr left, logged := logged w @ [''Error saving viewed videos'']\<rparr>))"

section \<open>Handlers\<close>

text \<open>
  The loops of the handlers look for the first entry with a given name, change it and
  stop. \<open>updateFirst n f vs\<close> is that loop: \<open>None\<close> when no entry is named \<open>n\<close>.
\<close>

fun updateFirst :: "string \<Rightarrow> (VideoFile \<Rightarrow> VideoFile) \<Rightarrow> VideoFile list \<Rightarrow> VideoFile list option" where
  "updateFirst n f [] = None"
| "updateFirst n f (v # vs) =
     (if Name v = n then Some (f v # vs) else map_option ((#) v) (updateFirst n f vs))"

fun firstReadable :: "(string \<Rightarrow> string option) \<Rightarrow> string list \<Rightarrow> string" where
  "firstReadable rd [] = []"
| "firstReadable rd (p # ps) =
     (case rd p of Some text \<Rightarrow> text | None \<Rightarrow> firstReadable rd ps)"

definition readReadmeFile :: "(string \<Rightarrow> string option) \<Rightarrow> string" where
  "readReadmeFile rd = firstReadable rd [''README.md'', ''README.txt'', ''readme.md'', ''readme.txt'']"

definition handleRoot :: "env \<Rightarrow> world \<Rightarrow> request \<Rightarrow> world \<times> response" where
  "handleRoot e w r =
     (if urlPath r \<noteq> ''/'' then (w, NotFound)
      else (w, Rendered \<lparr>ReadmeContent = readReadmeFile (readme e), Videos = videoFiles w,
                        CurrentVideo = [], CurrentVideoFile = None\<rparr>))"

definition markVideoAsViewed :: "string \<Rightarrow> env \<Rightarrow> world \<Rightarrow> world" where
  "markVideoAsViewed endedFilename e w =
     (case updateFirst endedFilename
             (\<lambda>v. v\<lparr>Viewed := True, Current := now e, Progress := Finite 0\<rparr>) (videoFiles w) of
        None \<Rightarrow> w
      | Some vs \<Rightarrow> saveViewedVideos vs e (w\<lparr>videoFiles := vs\<rparr>))"

text \<open>
  \<open>currentVideo\<close> is a copy of the entry found, taken before the list is changed. The
  ended video is marked only when the video to watch is in the library.
\<close>

definition handleWatch :: "env \<Rightarrow> world \<Rightarrow> request \<Rightarrow> world \<times> response" where
  "handleWatch e w r =
     (let fileName = TrimPrefix (urlPath r) ''/watch/'';
          currentVideo = find (\<lambda>video. Name video = fileName) (videoFiles w);
          w' = (if ended r \<noteq> [] \<and> currentVideo \<noteq> None
                then markVideoAsViewed (ended r) e w else w)
      in (w', Rendered \<lparr>ReadmeContent = [], Videos = videoFiles w',
                         CurrentVideo = fileName, CurrentVideoFile = currentVideo\<rparr>))"

definition redirectAfterUnview :: "stdlib \<Rightarrow> request \<Rightarrow> response" where
  "redirectAfterUnview lib r =
     (if referer r \<noteq> [] then
        (case url_Parse lib (referer r) of
           Some refererURL \<Rightarrow>
             Redirect (Referer (refererURL\<lparr>query := Del ''ended'' (query refererURL)\<rparr>)) 303
         | None \<Rightarrow> Redirect Home 303)
      else Redirect Home 303)"

definition handleUnview :: "stdlib \<Rightarrow> env \<Rightarrow> world \<Rightarrow> request \<Rightarrow> world \<times> response" where
  "handleUnview lib e w r =
     (let fileName = TrimPrefix (urlPath r) ''/unview/'' in
      case updateFirst fileName (\<lambda>v. v\<lparr>Viewed := False\<rparr>) (videoFiles w) of
        None \<Rightarrow> (w, NotFound)
      | Some vs \<Rightarrow> (saveViewedVideos vs e (w\<lparr>videoFiles := vs\<rparr>), redirectAfterUnview lib r))"

definition handleVideo :: "world \<Rightarrow> request \<Rightarrow> world \<times> response" where
  "handleVideo w r =
     (let fileName = TrimPrefix (urlPath r) ''/video/'' in
      case find (\<lambda>video. Name video = fileName) (videoFiles w) of
        Some video \<Rightarrow> (w, ServeFile (Path video))
      | None \<Rightarrow> (w, NotFound))"

text \<open>
  The progress handler does not touch the shared slice: it scans the root again, changes
  the entry in that fresh list and saves the fresh list. \<open>parts[len(parts)-2]\<close> panics
  on a path without a slash, which the route \<open>/update-progress/\<close> never delivers.
\<close>

definition handleUpdateProgress :: "stdlib \<Rightarrow> env \<Rightarrow> world \<Rightarrow> request \<Rightarrow> world \<times> response" where
  "handleUpdateProgress lib e w r =
     (let parts = Split (urlPath r) ''/'' in
      case ParseFloat lib (last parts) of
        None \<Rightarrow> (w\<lparr>logged := logged w @ [''Invalid progress vaule'']\<rparr>,
                  HttpError ''Invalid progress value'' 400)
      | Some progress \<Rightarrow>
          (case loadVideoFiles lib (dataFile w) (walk e) of
             Inl err \<Rightarrow> (w\<lparr>logged := logged w @ [''Error loading video progress'']\<rparr>,
                          HttpError ''Error loading video progress'' 500)
           | Inr loaded \<Rightarrow>
               if length parts < 2 then (w, Panic)
               else (let fileName = parts ! (length parts - 2) in
                     case updateFirst fileName
                            (\<lambda>v. v\<lparr>Current := now e, Progress := progress\<rparr>) loaded of
                       None \<Rightarrow> (w, WriteHeader 200)
                     | Some vs \<Rightarrow> (saveViewedVideos vs e w, WriteHeader 200))))"

section \<open>\<open>main\<close>: start-up and routing\<close>

text \<open>
  \<open>main\<close> exits with the usage text unless there is exactly one argument, and
  \<open>log.Fatalf\<close> ends the process when the library cannot be loaded; only then are the
  handlers registered and the server started. \<open>serve\<close> is the routing of the five
  patterns, which \<open>http.ServeMux\<close> matches by prefix.
\<close>

datatype startup = Usage | Fatal error | Serving world

definition main :: "stdlib \<Rightarrow> string list \<Rightarrow> os_error + content \<Rightarrow> walk_item list \<Rightarrow> startup" where
  "main lib args file tree =
     (if length args \<noteq> 1 then Usage
      else (case loadVideoFiles lib file tree of
              Inl err \<Rightarrow> Fatal err
            | Inr loaded \<Rightarrow> Serving \<lparr>videoFiles = loaded, dataFile = file, logged = []\<rparr>))"

definition hasPrefix :: "string \<Rightarrow> string \<Rightarrow> bool" where
  "hasPrefix s p \<longleftrightarrow> take (length p) s = p"

definition serve :: "stdlib \<Rightarrow> env \<Rightarrow> world \<Rightarrow> request \<Rightarrow> world \<times> response" where
  "serve lib e w r =
     (if hasPrefix (urlPath r) ''/watch/'' then handleWatch e w r
      else if hasPrefix (urlPath r) ''/unview/'' then handleUnview lib e w r
      else if hasPrefix (urlPath r) ''/video/'' then handleVideo w r
      else if hasPrefix (urlPath r) ''/update-progress/'' then handleUpdateProgress lib e w r
      else handleRoot e w r)"

fun run :: "stdlib \<Rightarrow> (env \<times> request) list \<Rightarrow> world \<Rightarrow> world" where
  "run lib [] w = w"
| "run lib ((e, r) # rest) w = run lib rest (fst (serve lib e w r))"

section \<open>Notions used to state the properties\<close>

text \<open>
  \<open>accepted\<close> lists, in walk order, the paths of the files whose lower-cased extension
  is a video extension; \<open>walkError\<close> is the first error the walk reports.
\<close>

fun accepted :: "stdlib \<Rightarrow> walk_item list \<Rightarrow> string list" where
  "accepted lib [] = []"
| "accepted lib (Failed path err # rest) = accepted lib rest"
| "accepted lib (Dir path # rest) = accepted lib rest"
| "accepted lib (File path # rest) =
     (if videoExtensions (ToLower lib (Ext path)) then path # accepted lib rest
      else accepted lib rest)"

fun walkError :: "walk_item list \<Rightarrow> os_error option" where
  "walkError [] = None"
| "walkError (Failed path err # rest) = Some err"
| "walkError (Dir path # rest) = walkError rest"
| "walkError (File path # rest) = walkError rest"

definition encodable :: "VideoFile list \<Rightarrow> bool" where
  "encodable vs \<longleftrightarrow> list_all (\<lambda>v. isFinite (Progress v)) vs"



text \<open>
  Concrete surroundings for the examples: a library of three videos, a store that does
  not exist yet, a standard library whose \<open>ParseFloat\<close> knows a few literals
  (\<open>strconv.ParseFloat\<close> reads \<open>NaN\<close> as the NaN value without an error), whose
  \<open>url.Parse\<close> knows one address, and whose lower-casing of strings beyond ASCII knows
  the extension \<open>.mKv\<close> written with the Kelvin sign (the bytes E2 84 AA).
\<close>

definition kelvinExt :: string where
  "kelvinExt = ''.m'' @ [CHR 0xE2, CHR 0x84, CHR 0xAA] @ ''v''"


definition fresh :: "string \<Rightarrow> string \<Rightarrow> VideoFile" where
  "fresh dir name =
     \<lparr>Name = name, Path = dir @ ''/'' @ name, Viewed = False, Current = 0, Progress = Finite 0\<rparr>"

definition lib0 :: stdlib where
  "lib0 =
     \<lparr>sort_Slice = insertionSort_func,
      ParseFloat = map_of [(''42.5'', Finite 42.5), (''0'', Finite 0), (''NaN'', NaN)],
      url_Parse = map_of [(''http://localhost:8080/watch/2?ended=1'',
                           \<lparr>location = ''http://localhost:8080/watch/2'',
                            query = [(''ended'', [''1''])]\<rparr>)],
      Map_ToLower = (\<lambda>s. if s = kelvinExt then ''.mkv'' else s)\<rparr>"

definition tree0 :: "walk_item list" where
  "tree0 = [Dir ''lib'', File ''lib/1 - Intro.mp4'', File ''lib/2 - Body.mp4'',
            File ''lib/README.md'', File ''lib/bad_name.mp4'']"

definition env0 :: env where
  "env0 = \<lparr>now = 1000, writeFails = None, walk = tree0, readme = (\<lambda>p. None)\<rparr>"

definition world0 :: world where
  "world0 =
     \<lparr>videoFiles = [fresh ''lib'' ''bad_name.mp4'', fresh ''lib'' ''1 - Intro.mp4'',
                    fresh ''lib'' ''2 - Body.mp4''],
      dataFile = Inl ErrNotExist, logged = []\<rparr>"

text \<open>
  A state in which \<open>1 - Intro.mp4\<close> is viewed and has been played again up to 42.5
  seconds, while the store file has been removed.
\<close>

definition world1 :: world where
  "world1 =
     \<lparr>videoFiles =
        [fresh ''lib'' ''bad_name.mp4'',
         (fresh ''lib'' ''1 - Intro.mp4'')\<lparr>Viewed := True, Current := 900, Progress := Finite 42.5\<rparr>,
         fresh ''lib'' ''2 - Body.mp4''],
      dataFile = Inl ErrNotExist, logged = []\<rparr>"

definition get :: "string \<Rightarrow> request" where
  "get path = \<lparr>urlPath = path, ended = [], referer = []\<rparr>"

definition watchBodyEndedIntro :: request where
  "watchBodyEndedIntro =
     \<lparr>urlPath = ''/watch/2 - Body.mp4'', ended = ''1 - Intro.mp4'', referer = []\<rparr>"

definition watchMissingEndedIntro :: request where
  "watchMissingEndedIntro =
     \<lparr>urlPath = ''/watch/9 - Missing.mp4'', ended = ''1 - Intro.mp4'', referer = []\<rparr>"

definition unviewIntro :: request where
  "unviewIntro =
     \<lparr>urlPath = ''/unview/1 - Intro.mp4'', ended = [],
      referer = ''http://localhost:8080/watch/2?ended=1''\<rparr>"

text \<open>
  A store that cannot be written, a store file that is not JSON, two files of the same
  name in different directories, a parsed referer, and a sequence of requests.
\<close>

definition envFailing :: env where
  "envFailing = env0\<lparr>writeFails := Some (AtOpen ErrPermission)\<rparr>"

definition worldCorrupt :: world where
  "worldCorrupt = world1\<lparr>dataFile := Inr (Garbage ''{'')\<rparr>"



text \<open>
  Thirteen files of one directory in walk order, the last two with the same number; the
  standard library with the algorithm of \<open>sort.Slice\<close>; a file whose name has a byte
  that is not UTF-8; a write that fails after the file was opened and cut to length 0.
\<close>

definition tree13 :: "walk_item list" where
  "tree13 =
     [Dir ''lib'', File ''lib/000001 - a.mp4'', File ''lib/00011 - b.mp4'',
      File ''lib/00012 - c.mp4'', File ''lib/0006 - d.mp4'', File ''lib/002 - e.mp4'',
      File ''lib/003 - f.mp4'', File ''lib/004 - g.mp4'', File ''lib/007 - h.mp4'',
      File ''lib/008 - i.mp4'', File ''lib/009 - j.mp4'', File ''lib/010 - k.mp4'',
      File ''lib/05 - l.mp4'', File ''lib/5 - m.mp4'']"

definition libGo :: stdlib where
  "libGo = lib0\<lparr>sort_Slice := sort_Slice_go\<rparr>"


definition envTruncating :: env where
  "envTruncating = env0\<lparr>writeFails := Some (AfterOpen ErrIO (Garbage []))\<rparr>"

definition treeK :: "walk_item list" where
  "treeK = tree0 @ [Dir ''lib/sub'', File (''lib/sub/3 - Coda'' @ kelvinExt)]"

definition refererURL0 :: url where
  "refererURL0 = \<lparr>location = ''http://localhost:8080/watch/2'', query = [(''ended'', [''1''])]\<rparr>"

definition session :: "(env \<times> request) list" where
  "session = [(env0, watchBodyEndedIntro), (env0, get ''/update-progress/1 - Intro.mp4/0''),
              (env0, get ''/unview/2 - Body.mp4''), (env0, get ''/video/1 - Intro.mp4''),
              (env0, get ''/'')]"

section \<open>The sorters keep the promise of \<open>sort.Slice\<close>\<close>

lemma mset_bubble: "mset (bubble lt x ys) = add_mset x (mset ys)"
  by (induction ys) auto

lemma set_bubble: "set (bubble lt x ys) = insert x (set ys)"
  by (induction ys) auto

lemma mset_foldl_bubble:
  "mset (foldl (\<lambda>p x. bubble lt x p) acc xs) = mset acc + mset xs"
  by (induction xs arbitrary: acc) (auto simp: mset_bubble)

lemma sorted_bubble:
  assumes "strict_weak lt" and "sorted_wrt (\<lambda>a b. \<not> lt a b) ys"
  shows "sorted_wrt (\<lambda>a b. \<not> lt a b) (bubble lt x ys)"
  using assms(2)
proof (induction ys)
  case Nil
  then show ?case by simp
next
  case (Cons y ys)
  from assms(1) have asym: "\<And>a b. lt a b \<Longrightarrow> \<not> lt b a"
    and negtrans: "\<And>a b c. lt a c \<Longrightarrow> lt a b \<or> lt b c"
    unfolding strict_weak_def by blast+
  show ?case
  proof (cases "lt x y")
    case True
    with Cons asym show ?thesis by (auto simp: set_bubble)
  next
    case False
    with Cons negtrans show ?thesis by auto
  qed
qed

lemma sorted_foldl_bubble:
  assumes "strict_weak lt"
  shows "sorted_wrt (\<lambda>a b. \<not> lt a b) acc \<Longrightarrow>
         sorted_wrt (\<lambda>a b. \<not> lt a b) (foldl (\<lambda>p x. bubble lt x p) acc xs)"
  by (induction xs arbitrary: acc) (auto simp: sorted_bubble [OF assms])

lemma insertionSort_func_contract: "sortSlice_contract insertionSort_func"
  unfolding sortSlice_contract_def insertionSort_func_def
  by (auto simp: mset_foldl_bubble sorted_wrt_rev dest: sorted_foldl_bubble [where acc = "[]"])

lemma strict_weak_lessByNumber: "strict_weak lessByNumber"
  unfolding strict_weak_def lessByNumber_def by auto

lemma sorter_mset:
  "sortSlice_contract srt \<Longrightarrow> mset (srt lessByNumber xs) = mset xs"
  using strict_weak_lessByNumber unfolding sortSlice_contract_def by blast

lemma sorter_sorted:
  assumes "sortSlice_contract srt"
  shows "sorted (map (\<lambda>v. orderKey (Name v)) (srt lessByNumber xs))"
proof -
  have "sorted_wrt (\<lambda>a b. \<not> lessByNumber b a) (srt lessByNumber xs)"
    using assms strict_weak_lessByNumber unfolding sortSlice_contract_def by blast
  then have "sorted_wrt (\<lambda>a b. orderKey (Name a) \<le> orderKey (Name b)) (srt lessByNumber xs)"
    by (rule sorted_wrt_mono_rel [rotated]) (simp add: lessByNumber_def)
  then show ?thesis by (simp add: sorted_map)
qed

subsection \<open>The algorithm of \<open>sort.Slice\<close> returns\<close>

text \<open>
  A partition puts the pivot strictly inside the range, so each turn of the main loop
  and each nested call of \<open>pdqsort_func\<close> works on a shorter range: the fuel that
  \<open>Slice\<close> gives is enough. On at most 12 elements the algorithm is the insertion
  sort.
\<close>

lemma scanUp_ge: "i \<le> scanUp lt data a i j"
  by (induction lt data a i j rule: scanUp.induct) (subst scanUp.simps, auto)

lemma scanDown_le: "scanDown lt data a i j \<le> j"
  by (induction lt data a i j rule: scanDown.induct) (subst scanDown.simps, auto)

lemma scanDown_ge: "min j (i - 1) \<le> scanDown lt data a i j"
  by (induction lt data a i j rule: scanDown.induct) (subst scanDown.simps, auto)

lemma partitionLoop_bounds:
  "min j (i - 1) \<le> snd (partitionLoop lt data a i j) \<and> snd (partitionLoop lt data a i j) \<le> j"
proof (induction lt data a i j rule: partitionLoop.induct)
  case (1 lt data a i j)
  let ?i = "scanUp lt data a i j"
  let ?j = "scanDown lt data a ?i j"
  have i: "i \<le> ?i" by (rule scanUp_ge)
  have j: "min j (?i - 1) \<le> ?j" "?j \<le> j" by (rule scanDown_ge, rule scanDown_le)
  show ?case
  proof (cases "?i > ?j")
    case True
    then show ?thesis using i j by (subst (1 2) partitionLoop.simps) (simp add: Let_def)
  next
    case False
    define i0 where "i0 = ?i"
    define j0 where "j0 = ?j"
    define m0 where "m0 = snd (partitionLoop lt (Swap data ?i ?j) a (?i + 1) (?j - 1))"
    from 1 [OF refl refl] False
    have "min (j0 - 1) (i0 + 1 - 1) \<le> m0 \<and> m0 \<le> j0 - 1"
      unfolding i0_def j0_def m0_def by simp
    moreover have "i \<le> i0" "j0 \<le> j" "\<not> i0 > j0"
      using i j False unfolding i0_def j0_def by blast+
    ultimately have "min j (i - 1) \<le> m0 \<and> m0 \<le> j" by arith
    moreover have "snd (partitionLoop lt data a i j) = m0"
      using False unfolding m0_def by (subst partitionLoop.simps) (simp add: Let_def)
    ultimately show ?thesis by simp
  qed
qed

lemma partition_func_bounds:
  assumes "a < b" and "partition_func lt data a b pivot = (d, m, ap)"
  shows "a \<le> m \<and> m < b"
proof -
  let ?d = "Swap data a pivot"
  let ?i = "scanUp lt ?d a (a + 1) (b - 1)"
  let ?j = "scanDown lt ?d a ?i (b - 1)"
  have i: "a + 1 \<le> ?i" by (rule scanUp_ge)
  have j: "min (b - 1) (?i - 1) \<le> ?j" "?j \<le> b - 1" by (rule scanDown_ge, rule scanDown_le)
  show ?thesis
  proof (cases "?i > ?j")
    case True
    with assms(2) have "m = ?j" by (simp add: partition_func_def Let_def)
    with i j assms(1) show ?thesis by simp
  next
    case False
    with assms(2) have m: "m = snd (partitionLoop lt (Swap ?d ?i ?j) a (?i + 1) (?j - 1))"
      by (auto simp: partition_func_def Let_def split: prod.splits)
    define i0 where "i0 = ?i"
    define j0 where "j0 = ?j"
    define m0 where "m0 = snd (partitionLoop lt (Swap ?d ?i ?j) a (?i + 1) (?j - 1))"
    have "min (j0 - 1) (i0 + 1 - 1) \<le> m0 \<and> m0 \<le> j0 - 1"
      unfolding i0_def j0_def m0_def by (rule partitionLoop_bounds)
    moreover have "a + 1 \<le> i0" "j0 \<le> b - 1" "\<not> i0 > j0" "m = m0"
      using i j False m unfolding i0_def j0_def m0_def by blast+
    ultimately show ?thesis by arith
  qed
qed

lemma scanUpEq_ge: "i \<le> scanUpEq lt data a i j"
  by (induction lt data a i j rule: scanUpEq.induct) (subst scanUpEq.simps, auto)

lemma scanDownEq_le: "scanDownEq lt data a i j \<le> j"
  by (induction lt data a i j rule: scanDownEq.induct) (subst scanDownEq.simps, auto)

lemma partitionEqualLoop_ge: "i \<le> snd (partitionEqualLoop lt data a i j)"
proof (induction lt data a i j rule: partitionEqualLoop.induct)
  case (1 lt data a i j)
  let ?i = "scanUpEq lt data a i j"
  let ?j = "scanDownEq lt data a ?i j"
  have i: "i \<le> ?i" by (rule scanUpEq_ge)
  show ?case
  proof (cases "?i > ?j")
    case True
    then show ?thesis using i by (subst partitionEqualLoop.simps) (simp add: Let_def)
  next
    case False
    from 1 [OF refl refl] False
    have "?i + 1 \<le> snd (partitionEqualLoop lt (Swap data ?i ?j) a (?i + 1) (?j - 1))" by simp
    then show ?thesis using i False by (subst partitionEqualLoop.simps) (simp add: Let_def)
  qed
qed

lemma partitionEqual_func_gt: "partitionEqual_func lt data a b pivot = (d, m) \<Longrightarrow> a < m"
  using partitionEqualLoop_ge [of "a + 1" lt "Swap data a pivot" a "b - 1"]
  by (simp add: partitionEqual_func_def)

lemma pdqsort_func_returns:
  "nat (b - a) < fuel \<Longrightarrow> pdqsort_func fuel lt data a b limit wasBalanced wasPartitioned \<noteq> None"
proof (induction fuel arbitrary: data a b limit wasBalanced wasPartitioned)
  case 0
  then show ?case by simp
next
  case (Suc fuel)
  have small: "pdqsort_func fuel lt d x y l wb wp \<noteq> None" if "y - x < b - a" "a < b" for d x y l wb wp
    using that Suc.prems by (intro Suc.IH) auto
  show ?case
  proof (cases "b - a \<le> 12 \<or> limit = 0")
    case True
    then show ?thesis by (auto simp: Let_def)
  next
    case False
    then have ab: "a < b" by simp
    have eq: "pdqsort_func fuel lt d m b l wb wp \<noteq> None"
      if "partitionEqual_func lt d' a b p = (d, m)" for d d' m p l wb wp
      using partitionEqual_func_gt [OF that] ab by (intro small) auto
    have left: "pdqsort_func fuel lt d' a m l wb wp \<noteq> None"
      and right: "pdqsort_func fuel lt d' (m + 1) b l wb wp \<noteq> None"
      if "partition_func lt d'' a b p = (d, m, ap)" for d d' d'' m p ap l wb wp
      using partition_func_bounds [OF ab that] ab by (intro small; simp)+
    have tail: "(if isSorted then Some d
           else if 0 < a \<and> \<not> Less lt d (a - 1) p then pdqsort_func fuel lt de me b l wb wp
           else if mp - a < b - mp then
                  (case pdqsort_func fuel lt dp a mp l True True of
                     None \<Rightarrow> None
                   | Some data \<Rightarrow>
                       pdqsort_func fuel lt data (mp + 1) b l ((b - a) div 8 \<le> mp - a) ap)
                else
                  (case pdqsort_func fuel lt dp (mp + 1) b l True True of
                     None \<Rightarrow> None
                   | Some data \<Rightarrow>
                       pdqsort_func fuel lt data a mp l ((b - a) div 8 \<le> b - mp) ap)) \<noteq> None"
      if pe: "partitionEqual_func lt d a b p = (de, me)"
        and pp: "partition_func lt d a b p = (dp, mp, ap)"
      for isSorted d p l wb wp de me dp mp ap
    proof -
      have L: "pdqsort_func fuel lt d' a mp l wb wp \<noteq> None"
        and R: "pdqsort_func fuel lt d' (mp + 1) b l wb wp \<noteq> None" for d' l wb wp
        by (rule left [OF pp], rule right [OF pp])
      have E: "pdqsort_func fuel lt de me b l wb wp \<noteq> None"
        by (rule eq [OF pe])
      show ?thesis
        by (simp add: L R E split: option.splits del: not_None_eq)
    qed
    from False have f1: "\<not> b - a \<le> 12" and f2: "limit \<noteq> 0" by auto
    show ?thesis
      unfolding pdqsort_func.simps Let_def
      by (simp only: f1 f2 if_False split: prod.split) (intro allI impI, hypsubst, rule tail; assumption)
  qed
qed

lemma Slice_returns: "\<exists>y. Slice lt x = Some y"
  using pdqsort_func_returns [of "int (length x)" 0 "Suc (length x)" lt x "bitsLen (length x)" True True]
  by (auto simp: Slice_def)

lemma insertionSort_range_whole: "insertionSort_range lt x 0 (int (length x)) = insertionSort_func lt x"
  by (simp add: insertionSort_range_def)

lemma sort_Slice_go_small: "length x \<le> 12 \<Longrightarrow> sort_Slice_go lt x = insertionSort_func lt x"
  by (simp add: sort_Slice_go_def Slice_def insertionSort_range_whole)

section \<open>What the scanner returns\<close>

text \<open>
  \<open>Split\<close> never returns the empty list, so the first piece taken by the comparison of
  \<open>sort.Slice\<close> and the last piece taken by the progress handler exist.
\<close>

lemma splitFrom_not_Nil: "splitFrom sep cur s \<noteq> []"
  by (induction sep cur s rule: splitFrom.induct) auto

lemma Split_not_Nil: "Split s sep \<noteq> []"
  by (simp add: Split_def splitFrom_not_Nil)

lemma walkFn_eq:
  "walkFn lib vv tree acc =
     (case walkError tree of
        Some err \<Rightarrow> Inl (WalkFailed err)
      | None \<Rightarrow> Inr (acc @ map (newVideoFile vv) (accepted lib tree)))"
  by (induction lib vv tree acc rule: walkFn.induct) (auto split: option.splits)

lemma loadVideoFiles_eq:
  "loadVideoFiles lib file tree =
     (case loadViewedVideos file of
        Inl err \<Rightarrow> Inl err
      | Inr vv \<Rightarrow>
          (case walkError tree of
             Some err \<Rightarrow> Inl (WalkFailed err)
           | None \<Rightarrow> Inr (sort_Slice lib lessByNumber (map (newVideoFile vv) (accepted lib tree)))))"
  by (simp add: loadVideoFiles_def walkFn_eq split: sum.splits option.splits)

lemma Name_newVideoFile: "Name (newVideoFile vv path) = Base path"
  by (simp add: newVideoFile_def Let_def)

lemma Path_newVideoFile: "Path (newVideoFile vv path) = path"
  by (simp add: newVideoFile_def Let_def)

lemma loadViewedVideos_ok:
  "(\<forall>s. file \<noteq> Inr (Garbage s)) \<Longrightarrow> \<exists>vv. loadViewedVideos file = Inr vv"
  by (cases "file") (auto simp: loadViewedVideos_def json_Unmarshal_def split: content.splits)

text \<open>
  C10. Whatever the error of reading the store file (absent, permission denied, or any
  other), \<open>loadViewedVideos\<close> returns the empty map and no error; the scan then goes on
  as for an absent file, and every entry starts from the zero state.
\<close>

theorem loadViewedVideos_any_read_error:
  "loadViewedVideos (Inl err) = Inr Map.empty
   \<and> loadVideoFiles lib (Inl err) tree = loadVideoFiles lib (Inl ErrNotExist) tree
   \<and> newVideoFile Map.empty path =
       \<lparr>Name = Base path, Path = path, Viewed = False, Current = 0, Progress = Finite 0\<rparr>"
  by (simp add: loadViewedVideos_def loadVideoFiles_def newVideoFile_def lookupVideo_def
      zeroVideoFile_def Let_def)

text \<open>
  C7. With the store file absent, loading returns the empty map and no error, and
  \<open>main\<close> goes on to serve the scanned library (unless the walk fails). With a store
  file that is not the JSON of an entry list, loading returns the error of
  \<open>json.Unmarshal\<close>; \<open>loadVideoFiles\<close> hands it on, and \<open>main\<close> ends the process with it
  instead of serving.
\<close>

theorem store_absent_or_malformed:
  "loadViewedVideos (Inl ErrNotExist) = Inr Map.empty
   \<and> main lib [dir] (Inl ErrNotExist) tree =
       (case walkError tree of
          Some err \<Rightarrow> Fatal (WalkFailed err)
        | None \<Rightarrow>
            Serving \<lparr>videoFiles =
                       sort_Slice lib lessByNumber (map (newVideoFile Map.empty) (accepted lib tree)),
                     dataFile = Inl ErrNotExist, logged = []\<rparr>)
   \<and> loadViewedVideos (Inr (Garbage s)) = Inl SyntaxError
   \<and> loadVideoFiles lib (Inr (Garbage s)) tree = Inl SyntaxError
   \<and> main lib [dir] (Inr (Garbage s)) tree = Fatal SyntaxError"
proof -
  have absent: "loadViewedVideos (Inl ErrNotExist) = Inr Map.empty"
    by (simp add: loadViewedVideos_def)
  have malformed: "loadViewedVideos (Inr (Garbage s)) = Inl SyntaxError"
    by (simp add: loadViewedVideos_def json_Unmarshal_def)
  show ?thesis
    by (simp add: absent malformed main_def loadVideoFiles_eq split: option.splits)
qed

text \<open>
  C1, as amended. The scanner filters by extension only. When the store is absent,
  unreadable or well-formed and the walk reports no error, the scan returns a list that
  holds exactly one entry for every file whose extension, lower-cased by
  \<open>strings.ToLower\<close>, is a video extension, however deep the file lies and whatever
  its name looks like: name and path of the entries are the base names and paths of
  these files. There is no test of the shape of the name.
\<close>

theorem scanner_filters_by_extension_only:
  assumes "sortSlice_contract (sort_Slice lib)" and "\<forall>s. file \<noteq> Inr (Garbage s)" and "walkError tree = None"
  shows "\<exists>res. loadVideoFiles lib file tree = Inr res
           \<and> mset (map (\<lambda>v. (Name v, Path v)) res) = mset (map (\<lambda>p. (Base p, p)) (accepted lib tree))"
proof -
  from assms(2) obtain vv where vv: "loadViewedVideos file = Inr vv"
    using loadViewedVideos_ok by blast
  let ?res = "sort_Slice lib lessByNumber (map (newVideoFile vv) (accepted lib tree))"
  have "loadVideoFiles lib file tree = Inr ?res"
    by (simp add: loadVideoFiles_eq vv assms(3))
  moreover have "mset (map (\<lambda>v. (Name v, Path v)) ?res)
                   = mset (map (\<lambda>p. (Base p, p)) (accepted lib tree))"
    by (simp add: sorter_mset [OF assms(1)] Name_newVideoFile Path_newVideoFile
        image_mset.compositionality comp_def)
  ultimately show ?thesis by blast
qed

text \<open>
  The theorem of C1 at the library of three videos with one more file in a
  subdirectory, whose extension is written with the Kelvin sign.
\<close>

theorem scanner_filters_by_extension_only_witness:
  "sortSlice_contract (sort_Slice lib0) \<and> walkError treeK = None
   \<and> accepted lib0 treeK
       = [''lib/1 - Intro.mp4'', ''lib/2 - Body.mp4'', ''lib/bad_name.mp4'',
          ''lib/sub/3 - Coda'' @ kelvinExt]
   \<and> (\<exists>res. loadVideoFiles lib0 (Inl ErrNotExist) treeK = Inr res
          \<and> mset (map (\<lambda>v. (Name v, Path v)) res)
              = mset (map (\<lambda>p. (Base p, p)) (accepted lib0 treeK)))"
proof -
  have c: "sortSlice_contract (sort_Slice lib0)"
    by (simp add: lib0_def insertionSort_func_contract)
  have f: "\<forall>s. (Inl ErrNotExist :: os_error + content) \<noteq> Inr (Garbage s)" by simp
  have w: "walkError treeK = None" by code_simp
  have a: "accepted lib0 treeK
       = [''lib/1 - Intro.mp4'', ''lib/2 - Body.mp4'', ''lib/bad_name.mp4'',
          ''lib/sub/3 - Coda'' @ kelvinExt]"
    by code_simp
  from scanner_filters_by_extension_only [OF c f w] c w a show ?thesis by blast
qed

text \<open>
  C1 as stated fails: \<open>bad_name.mp4\<close> does not split on \<open>'' - ''\<close> and has no leading
  number, and the scan returns an entry for it, ahead of the numbered files since its
  key is 0.
\<close>

theorem scanner_keeps_unnumbered_name:
  "loadVideoFiles lib0 (Inl ErrNotExist)
     [Dir ''lib'', File ''lib/1 - Intro.mp4'', File ''lib/2 - Body.mp4'', File ''lib/bad_name.mp4'']
   = Inr [fresh ''lib'' ''bad_name.mp4'', fresh ''lib'' ''1 - Intro.mp4'', fresh ''lib'' ''2 - Body.mp4'']"
  by code_simp

text \<open>
  C3, as amended. For every sorter that keeps the promise of \<open>sort.Slice\<close>, a scan
  with a store that is absent, unreadable or well-formed and a walk without error
  returns a list that is sorted non-decreasing by the key of each name, and that is a
  rearrangement of the entries in walk order. The key is what the comparison reads:
  the value \<open>strconv.Atoi\<close> returns for the leading token, trimmed of white space,
  with the error dropped. Nothing is promised about the order of entries with equal
  keys.
\<close>

theorem scanner_sorted_by_number:
  assumes "sortSlice_contract (sort_Slice lib)" and "\<forall>s. file \<noteq> Inr (Garbage s)" and "walkError tree = None"
  shows "\<exists>res vv. loadVideoFiles lib file tree = Inr res
           \<and> sorted (map (\<lambda>v. orderKey (Name v)) res)
           \<and> loadViewedVideos file = Inr vv
           \<and> mset res = mset (map (newVideoFile vv) (accepted lib tree))"
proof -
  from assms(2) obtain vv where vv: "loadViewedVideos file = Inr vv"
    using loadViewedVideos_ok by blast
  let ?res = "sort_Slice lib lessByNumber (map (newVideoFile vv) (accepted lib tree))"
  have "loadVideoFiles lib file tree = Inr ?res"
    by (simp add: loadVideoFiles_eq vv assms(3))
  moreover have "sorted (map (\<lambda>v. orderKey (Name v)) ?res)"
    by (rule sorter_sorted [OF assms(1)])
  moreover have "mset ?res = mset (map (newVideoFile vv) (accepted lib tree))"
    by (rule sorter_mset [OF assms(1)])
  ultimately show ?thesis using vv by blast
qed

text \<open>The theorem at the library of three files, whose keys are 0, 1 and 2 (C3).\<close>

theorem scanner_sorted_by_number_witness:
  "sortSlice_contract (sort_Slice lib0) \<and> walkError tree0 = None
   \<and> loadVideoFiles lib0 (Inl ErrNotExist) tree0 = Inr (videoFiles world0)
   \<and> map (\<lambda>v. orderKey (Name v)) (videoFiles world0) = [0, 1, 2]
   \<and> sorted (map (\<lambda>v. orderKey (Name v)) (videoFiles world0))
   \<and> mset (videoFiles world0) = mset (map (newVideoFile Map.empty) (accepted lib0 tree0))"
proof -
  have c: "sortSlice_contract (sort_Slice lib0)"
    by (simp add: lib0_def insertionSort_func_contract)
  have f: "\<forall>s. (Inl ErrNotExist :: os_error + content) \<noteq> Inr (Garbage s)" by simp
  have w: "walkError tree0 = None" by code_simp
  have l: "loadVideoFiles lib0 (Inl ErrNotExist) tree0 = Inr (videoFiles world0)"
    by code_simp
  have k: "map (\<lambda>v. orderKey (Name v)) (videoFiles world0) = [0, 1, 2]"
    by code_simp
  have e: "loadViewedVideos (Inl ErrNotExist) = Inr Map.empty"
    by (simp add: loadViewedVideos_def)
  from scanner_sorted_by_number [OF c f w] l e c w k show ?thesis by auto
qed

text \<open>
  C3 as stated fails: \<open>sort.Slice\<close> is not a stable sort. Thirteen files of one
  directory are scanned with the algorithm of \<open>sort.Slice\<close>; the walk meets
  \<open>05 - l.mp4\<close> before \<open>5 - m.mp4\<close>, both have the key 5, and the list returned has
  \<open>5 - m.mp4\<close> before \<open>05 - l.mp4\<close>.
\<close>

theorem ties_reversed_by_sort_Slice:
  "map (\<lambda>p. orderKey (Base p)) (accepted libGo tree13) = [1, 11, 12, 6, 2, 3, 4, 7, 8, 9, 10, 5, 5]
   \<and> Slice lessByNumber (map (newVideoFile Map.empty) (accepted libGo tree13))
       = Some (map (fresh ''lib'')
           [''000001 - a.mp4'', ''002 - e.mp4'', ''003 - f.mp4'', ''004 - g.mp4'', ''5 - m.mp4'',
            ''05 - l.mp4'', ''0006 - d.mp4'', ''007 - h.mp4'', ''008 - i.mp4'', ''009 - j.mp4'',
            ''010 - k.mp4'', ''00011 - b.mp4'', ''00012 - c.mp4''])
   \<and> loadVideoFiles libGo (Inl ErrNotExist) tree13
       = Inr (map (fresh ''lib'')
           [''000001 - a.mp4'', ''002 - e.mp4'', ''003 - f.mp4'', ''004 - g.mp4'', ''5 - m.mp4'',
            ''05 - l.mp4'', ''0006 - d.mp4'', ''007 - h.mp4'', ''008 - i.mp4'', ''009 - j.mp4'',
            ''010 - k.mp4'', ''00011 - b.mp4'', ''00012 - c.mp4''])"
  by code_simp

section \<open>The handlers and the store\<close>

lemma updateFirst_None_iff: "updateFirst n f vs = None \<longleftrightarrow> n \<notin> Name ` set vs"
  by (induction vs) auto

lemma updateFirst_at:
  assumes "i < length vs" and "Name (vs ! i) = n" and "\<forall>j<i. Name (vs ! j) \<noteq> n"
  shows "updateFirst n f vs = Some (vs[i := f (vs ! i)])"
  using assms
proof (induction vs arbitrary: i)
  case Nil
  then show ?case by simp
next
  case (Cons v vs)
  show ?case
  proof (cases i)
    case 0
    with Cons.prems show ?thesis by simp
  next
    case (Suc k)
    with Cons.prems have "Name v \<noteq> n" by auto
    moreover from Suc Cons.prems have "updateFirst n f vs = Some (vs[k := f (vs ! k)])"
      by (intro Cons.IH) auto
    ultimately show ?thesis using Suc by simp
  qed
qed

lemma updateFirst_Some:
  "updateFirst n f vs = Some vs' \<Longrightarrow>
     \<exists>i<length vs. Name (vs ! i) = n \<and> (\<forall>j<i. Name (vs ! j) \<noteq> n) \<and> vs' = vs[i := f (vs ! i)]"
proof (induction vs arbitrary: vs')
  case Nil
  then show ?case by simp
next
  case (Cons v vs)
  show ?case
  proof (cases "Name v = n")
    case True
    with Cons.prems have "vs' = (v # vs)[0 := f ((v # vs) ! 0)]" by simp
    with True show ?thesis by (intro exI [of _ 0]) simp
  next
    case False
    with Cons.prems obtain ws where ws: "updateFirst n f vs = Some ws" and vs': "vs' = v # ws"
      by auto
    from Cons.IH [OF ws] obtain k where k: "k < length vs" "Name (vs ! k) = n"
      "\<forall>j<k. Name (vs ! j) \<noteq> n" "ws = vs[k := f (vs ! k)]"
      by blast
    have "\<forall>j<Suc k. Name ((v # vs) ! j) \<noteq> n"
      using k(3) False by (auto simp: less_Suc_eq_0_disj)
    with k vs' show ?thesis by (intro exI [of _ "Suc k"]) simp
  qed
qed

lemma map_update_same:
  "(\<And>v. g (f v) = g v) \<Longrightarrow> map g (vs[i := f (vs ! i)]) = map g vs"
  by (cases "i < length vs") (auto simp: list_eq_iff_nth_eq nth_list_update)

lemma videoFiles_save [simp]: "videoFiles (saveViewedVideos vs e w) = videoFiles w"
  by (simp add: saveViewedVideos_def split: sum.splits option.splits write_failure.splits)

lemma dataFile_save:
  "writeFails e = None \<Longrightarrow>
   dataFile (saveViewedVideos vs e w) = (if encodable vs then Inr (Encoded vs) else dataFile w)"
  by (simp add: saveViewedVideos_def json_Marshal_def encodable_def)

lemma map_of_Del: "map_of (Del key q) = (map_of q)(key := None)"
  by (induction q) (auto simp: Del_def)

text \<open>
  C6, as amended. An unview request whose name is that of an entry sets the viewed flag
  of the first such entry to false, whatever the flag and the progress were before, and
  leaves the progress of every entry as it was; the changed list is handed to
  \<open>saveViewedVideos\<close>, which puts it into the store file when it can be encoded and the
  write succeeds; the answer is a redirect (303), whether or not the list has been
  stored. An unview request whose name is that of no entry is
  answered not-found and changes nothing. The redirect goes to \<open>/\<close> when there is no
  referer or it does not parse, and otherwise to the referer with the key \<open>ended\<close>
  deleted from its query and everything else kept.
\<close>

theorem unview_request:
  "(i < length (videoFiles w) \<and> Name (videoFiles w ! i) = TrimPrefix (urlPath r) ''/unview/''
      \<and> (\<forall>j<i. Name (videoFiles w ! j) \<noteq> TrimPrefix (urlPath r) ''/unview/'')
    \<longrightarrow> (let vs = (videoFiles w)[i := (videoFiles w ! i)\<lparr>Viewed := False\<rparr>];
             w' = fst (handleUnview lib e w r)
         in handleUnview lib e w r
              = (saveViewedVideos vs e (w\<lparr>videoFiles := vs\<rparr>), redirectAfterUnview lib r)
            \<and> videoFiles w' = vs
            \<and> Viewed (videoFiles w' ! i) = False
            \<and> map Progress (videoFiles w') = map Progress (videoFiles w)
            \<and> (encodable vs \<and> writeFails e = None \<longrightarrow> dataFile w' = Inr (Encoded vs))))
   \<and> (TrimPrefix (urlPath r) ''/unview/'' \<notin> Name ` set (videoFiles w)
        \<longrightarrow> handleUnview lib e w r = (w, NotFound))
   \<and> (referer r = [] \<or> url_Parse lib (referer r) = None
        \<longrightarrow> redirectAfterUnview lib r = Redirect Home 303)
   \<and> (referer r \<noteq> [] \<and> url_Parse lib (referer r) = Some u
        \<longrightarrow> (\<exists>u'. redirectAfterUnview lib r = Redirect (Referer u') 303
                  \<and> location u' = location u
                  \<and> map_of (query u') = (map_of (query u))(''ended'' := None)))"
proof (intro conjI impI)
  assume a: "i < length (videoFiles w) \<and> Name (videoFiles w ! i) = TrimPrefix (urlPath r) ''/unview/''
      \<and> (\<forall>j<i. Name (videoFiles w ! j) \<noteq> TrimPrefix (urlPath r) ''/unview/'')"
  let ?vs = "(videoFiles w)[i := (videoFiles w ! i)\<lparr>Viewed := False\<rparr>]"
  from a have u: "updateFirst (TrimPrefix (urlPath r) ''/unview/'') (\<lambda>v. v\<lparr>Viewed := False\<rparr>) (videoFiles w)
      = Some ?vs"
    by (intro updateFirst_at) auto
  have h: "handleUnview lib e w r
       = (saveViewedVideos ?vs e (w\<lparr>videoFiles := ?vs\<rparr>), redirectAfterUnview lib r)"
    by (simp add: handleUnview_def u)
  have p: "map Progress ?vs = map Progress (videoFiles w)"
    by (rule map_update_same) simp
  show "let vs = ?vs; w' = fst (handleUnview lib e w r)
         in handleUnview lib e w r
              = (saveViewedVideos vs e (w\<lparr>videoFiles := vs\<rparr>), redirectAfterUnview lib r)
            \<and> videoFiles w' = vs
            \<and> Viewed (videoFiles w' ! i) = False
            \<and> map Progress (videoFiles w') = map Progress (videoFiles w)
            \<and> (encodable vs \<and> writeFails e = None \<longrightarrow> dataFile w' = Inr (Encoded vs))"
    using a p by (simp add: h Let_def dataFile_save)
next
  assume "TrimPrefix (urlPath r) ''/unview/'' \<notin> Name ` set (videoFiles w)"
  then show "handleUnview lib e w r = (w, NotFound)"
    by (simp add: handleUnview_def updateFirst_None_iff [THEN iffD2])
next
  assume "referer r = [] \<or> url_Parse lib (referer r) = None"
  then show "redirectAfterUnview lib r = Redirect Home 303"
    by (auto simp: redirectAfterUnview_def)
next
  assume "referer r \<noteq> [] \<and> url_Parse lib (referer r) = Some u"
  then show "\<exists>u'. redirectAfterUnview lib r = Redirect (Referer u') 303
                  \<and> location u' = location u
                  \<and> map_of (query u') = (map_of (query u))(''ended'' := None)"
    by (simp add: redirectAfterUnview_def map_of_Del)
qed

lemma logged_save:
  "writeFails e = Some failure \<Longrightarrow>
   logged (saveViewedVideos vs e w) =
     logged w @ [if encodable vs then ''Error saving viewed videos''
                 else ''Error marshaling video files'']"
  by (cases failure) (simp_all add: saveViewedVideos_def json_Marshal_def encodable_def)

lemma videoFiles_mark:
  "videoFiles (markVideoAsViewed n (e\<lparr>writeFails := x\<rparr>) w) = videoFiles (markVideoAsViewed n e w)"
  by (simp add: markVideoAsViewed_def split: option.splits)

lemma watch_independent_of_write:
  "snd (handleWatch (e\<lparr>writeFails := x\<rparr>) w r) = snd (handleWatch e w r)
   \<and> videoFiles (fst (handleWatch (e\<lparr>writeFails := x\<rparr>) w r)) = videoFiles (fst (handleWatch e w r))"
  by (simp add: handleWatch_def Let_def videoFiles_mark)

lemma unview_independent_of_write:
  "snd (handleUnview lib (e\<lparr>writeFails := x\<rparr>) w r) = snd (handleUnview lib e w r)
   \<and> videoFiles (fst (handleUnview lib (e\<lparr>writeFails := x\<rparr>) w r))
       = videoFiles (fst (handleUnview lib e w r))"
  by (simp add: handleUnview_def Let_def split: option.splits)

lemma videoFiles_progress [simp]:
  "videoFiles (fst (handleUpdateProgress lib e w r)) = videoFiles w"
  by (simp add: handleUpdateProgress_def Let_def split: option.splits sum.splits)

lemma progress_independent_of_write:
  "snd (handleUpdateProgress lib (e\<lparr>writeFails := x\<rparr>) w r) = snd (handleUpdateProgress lib e w r)"
  by (simp add: handleUpdateProgress_def Let_def split: option.splits sum.splits)

lemma response_independent_of_write:
  "snd (serve lib (e\<lparr>writeFails := x\<rparr>) w r) = snd (serve lib e w r)
   \<and> videoFiles (fst (serve lib (e\<lparr>writeFails := x\<rparr>) w r)) = videoFiles (fst (serve lib e w r))"
  unfolding serve_def
  by (simp add: watch_independent_of_write unview_independent_of_write
      progress_independent_of_write handleVideo_def handleRoot_def Let_def split: option.splits)

text \<open>
  C2, as amended. When the write of the store file fails, \<open>saveViewedVideos\<close> logs one
  line and returns, without a second attempt. The failure does not reach the response:
  every request gets the response, and leaves the entry list, that it would with a
  successful write. An unview request is answered 303 or 404 and a watch request 200,
  never 5xx.
\<close>

theorem store_write_failure:
  assumes "writeFails e = Some failure"
  shows "logged (saveViewedVideos vs e w) =
           logged w @ [if encodable vs then ''Error saving viewed videos''
                       else ''Error marshaling video files'']
         \<and> snd (serve lib e w r) = snd (serve lib (e\<lparr>writeFails := None\<rparr>) w r)
         \<and> videoFiles (fst (serve lib e w r))
             = videoFiles (fst (serve lib (e\<lparr>writeFails := None\<rparr>) w r))
         \<and> statusCode (snd (handleUnview lib e w r)) \<in> {Some 303, Some 404}
         \<and> statusCode (snd (handleWatch e w r)) = Some 200"
proof -
  have "statusCode (snd (handleUnview lib e w r)) \<in> {Some 303, Some 404}"
    by (simp add: handleUnview_def redirectAfterUnview_def Let_def split: option.splits)
  moreover have "statusCode (snd (handleWatch e w r)) = Some 200"
    by (simp add: handleWatch_def Let_def)
  ultimately show ?thesis
    using logged_save [OF assms]
      response_independent_of_write [where lib = lib and e = e and x = None and w = w and r = r]
    by simp
qed

text \<open>
  C5, as amended. A watch request whose own video is in the library and whose non-empty
  \<open>ended\<close> parameter names an entry changes the first entry of that name to viewed,
  played now, progress 0; the changed list is handed to \<open>saveViewedVideos\<close> before the
  page is rendered (and is in the store file when it can be encoded and the write
  succeeds), and the page shows the changed list. A watch request whose own video is not
  in the library changes nothing, whatever its \<open>ended\<close> parameter names.
\<close>

theorem watch_ended:
  "(TrimPrefix (urlPath r) ''/watch/'' \<in> Name ` set (videoFiles w) \<and> ended r \<noteq> []
      \<and> i < length (videoFiles w) \<and> Name (videoFiles w ! i) = ended r
      \<and> (\<forall>j<i. Name (videoFiles w ! j) \<noteq> ended r)
    \<longrightarrow> (let vs = (videoFiles w)[i := (videoFiles w ! i)\<lparr>Viewed := True, Current := now e,
                                                        Progress := Finite 0\<rparr>]
         in handleWatch e w r
              = (saveViewedVideos vs e (w\<lparr>videoFiles := vs\<rparr>),
                 Rendered \<lparr>ReadmeContent = [], Videos = vs,
                           CurrentVideo = TrimPrefix (urlPath r) ''/watch/'',
                           CurrentVideoFile =
                             find (\<lambda>v. Name v = TrimPrefix (urlPath r) ''/watch/'') (videoFiles w)\<rparr>)
            \<and> (encodable vs \<and> writeFails e = None
                 \<longrightarrow> dataFile (fst (handleWatch e w r)) = Inr (Encoded vs))))
   \<and> (TrimPrefix (urlPath r) ''/watch/'' \<notin> Name ` set (videoFiles w)
        \<longrightarrow> handleWatch e w r
              = (w, Rendered \<lparr>ReadmeContent = [], Videos = videoFiles w,
                              CurrentVideo = TrimPrefix (urlPath r) ''/watch/'',
                              CurrentVideoFile = None\<rparr>))"
proof (intro conjI impI)
  let ?n = "TrimPrefix (urlPath r) ''/watch/''"
  assume a: "?n \<in> Name ` set (videoFiles w) \<and> ended r \<noteq> []
      \<and> i < length (videoFiles w) \<and> Name (videoFiles w ! i) = ended r
      \<and> (\<forall>j<i. Name (videoFiles w ! j) \<noteq> ended r)"
  let ?f = "\<lambda>v. v\<lparr>Viewed := True, Current := now e, Progress := Finite 0\<rparr>"
  let ?vs = "(videoFiles w)[i := ?f (videoFiles w ! i)]"
  from a have u: "updateFirst (ended r) ?f (videoFiles w) = Some ?vs"
    by (intro updateFirst_at) auto
  from a have f: "find (\<lambda>v. Name v = ?n) (videoFiles w) \<noteq> None"
    by (auto simp: find_None_iff)
  have h: "handleWatch e w r
       = (saveViewedVideos ?vs e (w\<lparr>videoFiles := ?vs\<rparr>),
          Rendered \<lparr>ReadmeContent = [], Videos = ?vs, CurrentVideo = ?n,
                    CurrentVideoFile = find (\<lambda>v. Name v = ?n) (videoFiles w)\<rparr>)"
    using a f by (simp add: handleWatch_def markVideoAsViewed_def u Let_def)
  show "let vs = ?vs
         in handleWatch e w r
              = (saveViewedVideos vs e (w\<lparr>videoFiles := vs\<rparr>),
                 Rendered \<lparr>ReadmeContent = [], Videos = vs, CurrentVideo = ?n,
                           CurrentVideoFile = find (\<lambda>v. Name v = ?n) (videoFiles w)\<rparr>)
            \<and> (encodable vs \<and> writeFails e = None
                 \<longrightarrow> dataFile (fst (handleWatch e w r)) = Inr (Encoded vs))"
    unfolding Let_def h by (simp add: dataFile_save)
next
  let ?n = "TrimPrefix (urlPath r) ''/watch/''"
  assume "?n \<notin> Name ` set (videoFiles w)"
  then have "find (\<lambda>v. Name v = ?n) (videoFiles w) = None"
    by (force simp: find_None_iff image_iff)
  then show "handleWatch e w r
              = (w, Rendered \<lparr>ReadmeContent = [], Videos = videoFiles w,
                              CurrentVideo = ?n, CurrentVideoFile = None\<rparr>)"
    by (simp add: handleWatch_def Let_def)
qed

text \<open>
  C5 as stated fails: \<open>ended\<close> names an entry of the library, but the video to watch is
  not in the library, and the entry stays unviewed.
\<close>

theorem ended_ignored_without_current_video:
  "handleWatch env0 world0 watchMissingEndedIntro
     = (world0, Rendered \<lparr>ReadmeContent = [], Videos = videoFiles world0,
                          CurrentVideo = ''9 - Missing.mp4'', CurrentVideoFile = None\<rparr>)
   \<and> map Name (videoFiles world0) = [''bad_name.mp4'', ''1 - Intro.mp4'', ''2 - Body.mp4'']
   \<and> map Viewed (videoFiles world0) = [False, False, False]"
  by code_simp

lemma updateFirst_names:
  assumes "updateFirst n f vs = Some vs'" and "\<And>v. Name (f v) = Name v"
  shows "map Name vs' = map Name vs"
proof -
  from updateFirst_Some [OF assms(1)] obtain i where "vs' = vs[i := f (vs ! i)]" by blast
  then show ?thesis using assms(2) by (simp add: map_update_same)
qed

lemma updateFirst_Viewed:
  assumes "updateFirst n f vs = Some vs'" and "i < length vs" and "Viewed (vs ! i)"
    and "(\<forall>v. Viewed v \<longrightarrow> Viewed (f v)) \<or> Name (vs ! i) \<noteq> n"
  shows "Viewed (vs' ! i)"
proof -
  from updateFirst_Some [OF assms(1)] obtain k where k: "k < length vs" "Name (vs ! k) = n"
    "vs' = vs[k := f (vs ! k)]" by blast
  show ?thesis
  proof (cases "k = i")
    case True
    with k assms show ?thesis by auto
  next
    case False
    with k assms show ?thesis by simp
  qed
qed

lemma mark_names: "map Name (videoFiles (markVideoAsViewed n e w)) = map Name (videoFiles w)"
  by (auto simp: markVideoAsViewed_def split: option.splits intro: updateFirst_names)

lemma mark_viewed:
  "i < length (videoFiles w) \<Longrightarrow> Viewed (videoFiles w ! i) \<Longrightarrow>
   Viewed (videoFiles (markVideoAsViewed n e w) ! i)"
  by (auto simp: markVideoAsViewed_def split: option.splits intro: updateFirst_Viewed)

lemma watch_names: "map Name (videoFiles (fst (handleWatch e w r))) = map Name (videoFiles w)"
  by (simp add: handleWatch_def Let_def mark_names)

lemma watch_viewed:
  "i < length (videoFiles w) \<Longrightarrow> Viewed (videoFiles w ! i) \<Longrightarrow>
   Viewed (videoFiles (fst (handleWatch e w r)) ! i)"
  by (simp add: handleWatch_def Let_def mark_viewed)

lemma unview_names: "map Name (videoFiles (fst (handleUnview lib e w r))) = map Name (videoFiles w)"
  by (auto simp: handleUnview_def Let_def split: option.splits intro: updateFirst_names)

lemma unview_viewed:
  "i < length (videoFiles w) \<Longrightarrow> Viewed (videoFiles w ! i) \<Longrightarrow>
   TrimPrefix (urlPath r) ''/unview/'' \<noteq> Name (videoFiles w ! i) \<Longrightarrow>
   Viewed (videoFiles (fst (handleUnview lib e w r)) ! i)"
  by (auto simp: handleUnview_def Let_def split: option.splits intro: updateFirst_Viewed)

lemma videoFiles_video [simp]: "videoFiles (fst (handleVideo w r)) = videoFiles w"
  by (simp add: handleVideo_def Let_def split: option.splits)

lemma videoFiles_root [simp]: "videoFiles (fst (handleRoot e w r)) = videoFiles w"
  by (simp add: handleRoot_def)

lemma serve_names: "map Name (videoFiles (fst (serve lib e w r))) = map Name (videoFiles w)"
  by (simp add: serve_def watch_names unview_names)

lemma serve_viewed:
  assumes "i < length (videoFiles w)" and "Viewed (videoFiles w ! i)"
    and "\<not> (hasPrefix (urlPath r) ''/unview/''
             \<and> TrimPrefix (urlPath r) ''/unview/'' = Name (videoFiles w ! i))"
  shows "Viewed (videoFiles (fst (serve lib e w r)) ! i)"
  using assms by (auto simp: serve_def watch_viewed unview_viewed)

lemma run_names: "map Name (videoFiles (run lib reqs w)) = map Name (videoFiles w)"
  by (induction lib reqs w rule: run.induct) (simp_all add: serve_names)

lemma dataFile_progress:
  assumes "writeFails e = None"
  shows "dataFile (fst (handleUpdateProgress lib e w r)) = dataFile w
   \<or> (\<exists>loaded vs. loadVideoFiles lib (dataFile w) (walk e) = Inr loaded
          \<and> dataFile (fst (handleUpdateProgress lib e w r)) = Inr (Encoded vs)
          \<and> map Name vs = map Name loaded \<and> map Viewed vs = map Viewed loaded)"
proof (cases "dataFile (fst (handleUpdateProgress lib e w r)) = dataFile w")
  case True
  then show ?thesis by simp
next
  case False
  then obtain p loaded vs where l: "loadVideoFiles lib (dataFile w) (walk e) = Inr loaded"
    and u: "updateFirst (Split (urlPath r) ''/'' ! (length (Split (urlPath r) ''/'') - 2))
              (\<lambda>v. v\<lparr>Current := now e, Progress := p\<rparr>) loaded = Some vs"
    and h: "fst (handleUpdateProgress lib e w r) = saveViewedVideos vs e w"
    by (auto simp: handleUpdateProgress_def Let_def split: option.splits sum.splits if_splits)
  from False h have d: "dataFile (fst (handleUpdateProgress lib e w r)) = Inr (Encoded vs)"
    by (simp add: dataFile_save [OF assms] split: if_splits)
  from updateFirst_Some [OF u] obtain i
    where vs: "vs = loaded[i := (loaded ! i)\<lparr>Current := now e, Progress := p\<rparr>]" by blast
  have "map Name vs = map Name loaded" and "map Viewed vs = map Viewed loaded"
    unfolding vs by (rule map_update_same; simp)+
  with l d show ?thesis by blast
qed

text \<open>
  C9. Along every sequence of requests, served in any environment from any state, an
  entry of the shared list that is viewed stays viewed unless one of the requests is an
  unview request with its name; the names of the list never change. A progress update in
  particular leaves the shared list as it is, and when its write succeeds, the list it
  puts into the store file has the viewed flags of the list it loaded.
\<close>

theorem viewed_cleared_by_unview_only:
  assumes "i < length (videoFiles w)" and "Viewed (videoFiles w ! i)"
    and "\<forall>(e, r) \<in> set reqs. \<not> (hasPrefix (urlPath r) ''/unview/''
             \<and> TrimPrefix (urlPath r) ''/unview/'' = Name (videoFiles w ! i))"
  shows "Viewed (videoFiles (run lib reqs w) ! i)
         \<and> map Name (videoFiles (run lib reqs w)) = map Name (videoFiles w)
         \<and> videoFiles (fst (handleUpdateProgress lib e' w r')) = videoFiles w
         \<and> (writeFails e' = None \<longrightarrow>
              dataFile (fst (handleUpdateProgress lib e' w r')) = dataFile w
              \<or> (\<exists>loaded vs. loadVideoFiles lib (dataFile w) (walk e') = Inr loaded
                    \<and> dataFile (fst (handleUpdateProgress lib e' w r')) = Inr (Encoded vs)
                    \<and> map Name vs = map Name loaded \<and> map Viewed vs = map Viewed loaded))"
proof -
  have "Viewed (videoFiles (run lib reqs w) ! i)"
    using assms
  proof (induction lib reqs w rule: run.induct)
    case (1 lib w)
    then show ?case by simp
  next
    case (2 lib e r rest w)
    let ?w = "fst (serve lib e w r)"
    have n: "map Name (videoFiles ?w) = map Name (videoFiles w)" by (rule serve_names)
    then have len: "length (videoFiles ?w) = length (videoFiles w)" by (rule map_eq_imp_length_eq)
    from n "2.prems"(1) have ni: "Name (videoFiles ?w ! i) = Name (videoFiles w ! i)"
      by (metis len nth_map)
    have "Viewed (videoFiles ?w ! i)"
      using "2.prems" by (intro serve_viewed) auto
    moreover have "i < length (videoFiles ?w)" using len "2.prems"(1) by simp
    moreover have "\<forall>(e, r) \<in> set rest. \<not> (hasPrefix (urlPath r) ''/unview/''
             \<and> TrimPrefix (urlPath r) ''/unview/'' = Name (videoFiles ?w ! i))"
      using "2.prems"(3) ni by auto
    ultimately show ?case using "2.IH" by simp
  qed
  then show ?thesis
    using run_names [of lib reqs w] dataFile_progress [of e' lib w r'] by simp
qed

text \<open>
  C4, as amended. A progress update whose last path segment does not parse as a float is
  answered 400 and changes neither the entry list nor the store file. When it parses,
  the handler scans the root again. If the scan fails, the answer is 500 and nothing
  changes. If it succeeds and the scanned list has an entry with the name in the path,
  the first such entry gets the time now and the parsed progress, its viewed flag stays
  as loaded, the scanned list is handed to \<open>saveViewedVideos\<close> (and is in the store file
  when it can be encoded and the write succeeds), and the answer is 200. The shared
  entry list is not changed.
\<close>

theorem progress_update:
  "(ParseFloat lib (last (Split (urlPath r) ''/'')) = None
      \<longrightarrow> handleUpdateProgress lib e w r
            = (w\<lparr>logged := logged w @ [''Invalid progress vaule'']\<rparr>,
               HttpError ''Invalid progress value'' 400))
   \<and> (ParseFloat lib (last (Split (urlPath r) ''/'')) = Some p
       \<and> loadVideoFiles lib (dataFile w) (walk e) = Inl err
      \<longrightarrow> handleUpdateProgress lib e w r
            = (w\<lparr>logged := logged w @ [''Error loading video progress'']\<rparr>,
               HttpError ''Error loading video progress'' 500))
   \<and> (ParseFloat lib (last (Split (urlPath r) ''/'')) = Some p
       \<and> loadVideoFiles lib (dataFile w) (walk e) = Inr loaded
       \<and> 2 \<le> length (Split (urlPath r) ''/'')
       \<and> i < length loaded
       \<and> Name (loaded ! i) = Split (urlPath r) ''/'' ! (length (Split (urlPath r) ''/'') - 2)
       \<and> (\<forall>j<i. Name (loaded ! j) \<noteq> Split (urlPath r) ''/'' ! (length (Split (urlPath r) ''/'') - 2))
      \<longrightarrow> (let vs = loaded[i := (loaded ! i)\<lparr>Current := now e, Progress := p\<rparr>]
           in handleUpdateProgress lib e w r = (saveViewedVideos vs e w, WriteHeader 200)
              \<and> Current (vs ! i) = now e \<and> Progress (vs ! i) = p
              \<and> Viewed (vs ! i) = Viewed (loaded ! i)
              \<and> videoFiles (fst (handleUpdateProgress lib e w r)) = videoFiles w
              \<and> (encodable vs \<and> writeFails e = None
                   \<longrightarrow> dataFile (fst (handleUpdateProgress lib e w r)) = Inr (Encoded vs))))"
proof (intro conjI impI)
  assume "ParseFloat lib (last (Split (urlPath r) ''/'')) = None"
  then show "handleUpdateProgress lib e w r
            = (w\<lparr>logged := logged w @ [''Invalid progress vaule'']\<rparr>,
               HttpError ''Invalid progress value'' 400)"
    by (simp add: handleUpdateProgress_def Let_def)
next
  assume "ParseFloat lib (last (Split (urlPath r) ''/'')) = Some p
       \<and> loadVideoFiles lib (dataFile w) (walk e) = Inl err"
  then show "handleUpdateProgress lib e w r
            = (w\<lparr>logged := logged w @ [''Error loading video progress'']\<rparr>,
               HttpError ''Error loading video progress'' 500)"
    by (simp add: handleUpdateProgress_def Let_def)
next
  let ?parts = "Split (urlPath r) ''/''"
  let ?n = "?parts ! (length ?parts - 2)"
  let ?f = "\<lambda>v. v\<lparr>Current := now e, Progress := p\<rparr>"
  let ?vs = "loaded[i := ?f (loaded ! i)]"
  assume a: "ParseFloat lib (last ?parts) = Some p
       \<and> loadVideoFiles lib (dataFile w) (walk e) = Inr loaded
       \<and> 2 \<le> length ?parts \<and> i < length loaded \<and> Name (loaded ! i) = ?n
       \<and> (\<forall>j<i. Name (loaded ! j) \<noteq> ?n)"
  then have u: "updateFirst ?n ?f loaded = Some ?vs"
    by (intro updateFirst_at) auto
  have h: "handleUpdateProgress lib e w r = (saveViewedVideos ?vs e w, WriteHeader 200)"
    using a by (simp add: handleUpdateProgress_def Let_def u)
  show "let vs = ?vs
           in handleUpdateProgress lib e w r = (saveViewedVideos vs e w, WriteHeader 200)
              \<and> Current (vs ! i) = now e \<and> Progress (vs ! i) = p
              \<and> Viewed (vs ! i) = Viewed (loaded ! i)
              \<and> videoFiles (fst (handleUpdateProgress lib e w r)) = videoFiles w
              \<and> (encodable vs \<and> writeFails e = None
                   \<longrightarrow> dataFile (fst (handleUpdateProgress lib e w r)) = Inr (Encoded vs))"
    unfolding Let_def h using a by (simp add: dataFile_save)
qed

section \<open>Round trip\<close>










text \<open>
  C2 as stated fails: with a store file that cannot be written, the unview request is
  answered by the redirect (303) and the progress update by 200. The failure is in the
  log only.
\<close>

theorem write_failure_answered_with_redirect:
  "writeFails envFailing = Some (AtOpen ErrPermission)
   \<and> handleUnview lib0 envFailing world1 unviewIntro
     = (\<lparr>videoFiles = [fresh ''lib'' ''bad_name.mp4'',
                       (fresh ''lib'' ''1 - Intro.mp4'')\<lparr>Current := 900, Progress := Finite 42.5\<rparr>,
                       fresh ''lib'' ''2 - Body.mp4''],
         dataFile = Inl ErrNotExist, logged = [''Error saving viewed videos'']\<rparr>,
        Redirect (Referer \<lparr>location = ''http://localhost:8080/watch/2'', query = []\<rparr>) 303)
   \<and> handleUpdateProgress lib0 envFailing world1 (get ''/update-progress/1 - Intro.mp4/42.5'')
     = (world1\<lparr>logged := [''Error saving viewed videos'']\<rparr>, WriteHeader 200)"
  by code_simp

text \<open>
  C4 as stated fails: the elapsed value \<open>42.5\<close> parses, but the store file has become
  unreadable as JSON, so the scan fails, the answer is 500 and no entry is changed. The
  value \<open>NaN\<close> parses, but the list with it cannot be encoded, so nothing is stored
  while the answer is 200. And after an update that succeeds, the entries of the shared
  list, which the other handlers show, still have progress 0.
\<close>

theorem progress_update_without_effect:
  "ParseFloat lib0 ''42.5'' = Some (Finite 42.5)
   \<and> handleUpdateProgress lib0 env0 worldCorrupt (get ''/update-progress/1 - Intro.mp4/42.5'')
     = (worldCorrupt\<lparr>logged := [''Error loading video progress'']\<rparr>,
        HttpError ''Error loading video progress'' 500)
   \<and> ParseFloat lib0 ''NaN'' = Some NaN
   \<and> handleUpdateProgress lib0 env0 world0 (get ''/update-progress/1 - Intro.mp4/NaN'')
     = (world0\<lparr>logged := [''Error marshaling video files'']\<rparr>, WriteHeader 200)
   \<and> map Progress
         (videoFiles (fst (handleUpdateProgress lib0 env0 world0
                             (get ''/update-progress/1 - Intro.mp4/42.5''))))
     = [Finite 0, Finite 0, Finite 0]"
  by code_simp


text \<open>
  C6 as stated fails: the unview request for a known name is answered by the redirect
  although the write of the store file failed after the file had been opened, and the
  store file is left empty: the updated list is not in it.
\<close>

theorem unview_redirects_without_persisting:
  "writeFails envTruncating = Some (AfterOpen ErrIO (Garbage []))
   \<and> handleUnview lib0 envTruncating world1 unviewIntro
     = (\<lparr>videoFiles = [fresh ''lib'' ''bad_name.mp4'',
                       (fresh ''lib'' ''1 - Intro.mp4'')\<lparr>Current := 900, Progress := Finite 42.5\<rparr>,
                       fresh ''lib'' ''2 - Body.mp4''],
         dataFile = Inr (Garbage []), logged = [''Error saving viewed videos'']\<rparr>,
        Redirect (Referer \<lparr>location = ''http://localhost:8080/watch/2'', query = []\<rparr>) 303)"
  by code_simp

text \<open>The theorem of C2 at an unview request with a store file that cannot be written.\<close>

theorem store_write_failure_witness:
  "writeFails envFailing = Some (AtOpen ErrPermission)
   \<and> logged (saveViewedVideos (videoFiles world1) envFailing world1)
       = [''Error saving viewed videos'']
   \<and> snd (serve lib0 envFailing world1 unviewIntro) = snd (serve lib0 env0 world1 unviewIntro)
   \<and> videoFiles (fst (serve lib0 envFailing world1 unviewIntro))
       = videoFiles (fst (serve lib0 env0 world1 unviewIntro))
   \<and> statusCode (snd (serve lib0 envFailing world1 unviewIntro)) = Some 303"
proof -
  have h: "writeFails envFailing = Some (AtOpen ErrPermission)" by (simp add: envFailing_def)
  have e: "envFailing\<lparr>writeFails := None\<rparr> = env0" by (simp add: envFailing_def env0_def)
  have enc: "encodable (videoFiles world1)" by code_simp
  have l: "logged world1 = []" by (simp add: world1_def)
  have s: "statusCode (snd (serve lib0 env0 world1 unviewIntro)) = Some 303" by code_simp
  from store_write_failure [OF h, of "videoFiles world1" world1 lib0 unviewIntro]
  show ?thesis using h e enc l s by simp
qed

text \<open>
  The theorem of C5 at the request \<open>/watch/2 - Body.mp4?ended=1 - Intro.mp4\<close> and at a
  request for a video that is not in the library.
\<close>

theorem watch_ended_witness:
  "Name (videoFiles world0 ! 1) = ended watchBodyEndedIntro
   \<and> Viewed (videoFiles world0 ! 1) = False
   \<and> handleWatch env0 world0 watchBodyEndedIntro
       = (world0\<lparr>videoFiles := (videoFiles world0)[1 := (fresh ''lib'' ''1 - Intro.mp4'')\<lparr>Viewed := True, Current := 1000\<rparr>],
                 dataFile := Inr (Encoded ((videoFiles world0)[1 := (fresh ''lib'' ''1 - Intro.mp4'')\<lparr>Viewed := True, Current := 1000\<rparr>]))\<rparr>,
          Rendered \<lparr>ReadmeContent = [],
                    Videos = (videoFiles world0)[1 := (fresh ''lib'' ''1 - Intro.mp4'')\<lparr>Viewed := True, Current := 1000\<rparr>],
                    CurrentVideo = ''2 - Body.mp4'',
                    CurrentVideoFile = Some (fresh ''lib'' ''2 - Body.mp4'')\<rparr>)
   \<and> handleWatch env0 world0 watchMissingEndedIntro
       = (world0, Rendered \<lparr>ReadmeContent = [], Videos = videoFiles world0,
                            CurrentVideo = ''9 - Missing.mp4'', CurrentVideoFile = None\<rparr>)"
proof -
  let ?vs = "(videoFiles world0)[1 := (videoFiles world0 ! 1)\<lparr>Viewed := True, Current := now env0,
                                                        Progress := Finite 0\<rparr>]"
  have names: "map Name (videoFiles world0) = [''bad_name.mp4'', ''1 - Intro.mp4'', ''2 - Body.mp4'']"
    by (simp add: world0_def fresh_def)
  have t: "TrimPrefix (urlPath watchBodyEndedIntro) ''/watch/'' = ''2 - Body.mp4''"
    and t': "TrimPrefix (urlPath watchMissingEndedIntro) ''/watch/'' = ''9 - Missing.mp4''"
    and en: "ended watchBodyEndedIntro = ''1 - Intro.mp4''"
    by (simp_all add: watchBodyEndedIntro_def watchMissingEndedIntro_def TrimPrefix_def)
  have set_names: "Name ` set (videoFiles world0) = {''bad_name.mp4'', ''1 - Intro.mp4'', ''2 - Body.mp4''}"
    using names by (metis list.set_map list.simps(15) empty_set)
  have hyp: "TrimPrefix (urlPath watchBodyEndedIntro) ''/watch/'' \<in> Name ` set (videoFiles world0)
      \<and> ended watchBodyEndedIntro \<noteq> []
      \<and> 1 < length (videoFiles world0) \<and> Name (videoFiles world0 ! 1) = ended watchBodyEndedIntro
      \<and> (\<forall>j<1. Name (videoFiles world0 ! j) \<noteq> ended watchBodyEndedIntro)"
    unfolding t en set_names by (simp add: world0_def fresh_def)
  have hyp': "TrimPrefix (urlPath watchMissingEndedIntro) ''/watch/'' \<notin> Name ` set (videoFiles world0)"
    unfolding t' set_names by simp
  have ev: "?vs = (videoFiles world0)[1 := (fresh ''lib'' ''1 - Intro.mp4'')\<lparr>Viewed := True, Current := 1000\<rparr>]"
    and fi: "find (\<lambda>v. Name v = ''2 - Body.mp4'') (videoFiles world0) = Some (fresh ''lib'' ''2 - Body.mp4'')"
    and sv: "saveViewedVideos ?vs env0 (world0\<lparr>videoFiles := ?vs\<rparr>)
               = world0\<lparr>videoFiles := ?vs, dataFile := Inr (Encoded ?vs)\<rparr>"
    and v0: "Viewed (videoFiles world0 ! 1) = False"
    by code_simp+
  note T = watch_ended [of watchBodyEndedIntro world0 1 env0]
  from T hyp have "handleWatch env0 world0 watchBodyEndedIntro
       = (saveViewedVideos ?vs env0 (world0\<lparr>videoFiles := ?vs\<rparr>),
          Rendered \<lparr>ReadmeContent = [], Videos = ?vs,
                    CurrentVideo = TrimPrefix (urlPath watchBodyEndedIntro) ''/watch/'',
                    CurrentVideoFile = find (\<lambda>v. Name v = TrimPrefix (urlPath watchBodyEndedIntro) ''/watch/'')
                                         (videoFiles world0)\<rparr>)"
    unfolding Let_def by blast
  then have a: "handleWatch env0 world0 watchBodyEndedIntro
       = (world0\<lparr>videoFiles := ?vs, dataFile := Inr (Encoded ?vs)\<rparr>,
          Rendered \<lparr>ReadmeContent = [], Videos = ?vs, CurrentVideo = ''2 - Body.mp4'',
                    CurrentVideoFile = Some (fresh ''lib'' ''2 - Body.mp4'')\<rparr>)"
    unfolding t fi sv .
  from watch_ended [of watchMissingEndedIntro world0 1 env0] hyp'
  have b: "handleWatch env0 world0 watchMissingEndedIntro
       = (world0, Rendered \<lparr>ReadmeContent = [], Videos = videoFiles world0,
                            CurrentVideo = TrimPrefix (urlPath watchMissingEndedIntro) ''/watch/'',
                            CurrentVideoFile = None\<rparr>)"
    by blast
  from a b hyp v0 show ?thesis unfolding t' ev by simp
qed

text \<open>
  The theorem of C6 at the request \<open>/unview/1 - Intro.mp4\<close> for a viewed entry with
  progress 42.5, at a request for an unknown name, and at a request without referer.
\<close>

theorem unview_request_witness:
  "Name (videoFiles world1 ! 1) = TrimPrefix (urlPath unviewIntro) ''/unview/''
   \<and> Viewed (videoFiles world1 ! 1) = True
   \<and> Viewed (videoFiles (fst (handleUnview lib0 env0 world1 unviewIntro)) ! 1) = False
   \<and> map Progress (videoFiles (fst (handleUnview lib0 env0 world1 unviewIntro)))
       = [Finite 0, Finite 42.5, Finite 0]
   \<and> dataFile (fst (handleUnview lib0 env0 world1 unviewIntro))
       = Inr (Encoded ((videoFiles world1)[1 := (videoFiles world1 ! 1)\<lparr>Viewed := False\<rparr>]))
   \<and> snd (handleUnview lib0 env0 world1 unviewIntro)
       = Redirect (Referer \<lparr>location = ''http://localhost:8080/watch/2'', query = []\<rparr>) 303
   \<and> handleUnview lib0 env0 world1 (get ''/unview/9 - Missing.mp4'') = (world1, NotFound)
   \<and> redirectAfterUnview lib0 (get ''/unview/1 - Intro.mp4'') = Redirect Home 303"
proof -
  let ?vs = "(videoFiles world1)[1 := (videoFiles world1 ! 1)\<lparr>Viewed := False\<rparr>]"
  have names: "map Name (videoFiles world1) = [''bad_name.mp4'', ''1 - Intro.mp4'', ''2 - Body.mp4'']"
    by (simp add: world1_def fresh_def)
  then have set_names: "Name ` set (videoFiles world1) = {''bad_name.mp4'', ''1 - Intro.mp4'', ''2 - Body.mp4''}"
    by (metis list.set_map list.simps(15) empty_set)
  have t: "TrimPrefix (urlPath unviewIntro) ''/unview/'' = ''1 - Intro.mp4''"
    and t': "TrimPrefix (urlPath (get ''/unview/9 - Missing.mp4'')) ''/unview/'' = ''9 - Missing.mp4''"
    by (simp_all add: unviewIntro_def get_def TrimPrefix_def)
  have hyp: "1 < length (videoFiles world1)
      \<and> Name (videoFiles world1 ! 1) = TrimPrefix (urlPath unviewIntro) ''/unview/''
      \<and> (\<forall>j<1. Name (videoFiles world1 ! j) \<noteq> TrimPrefix (urlPath unviewIntro) ''/unview/'')"
    unfolding t by (simp add: world1_def fresh_def)
  have hyp': "TrimPrefix (urlPath (get ''/unview/9 - Missing.mp4'')) ''/unview/''
      \<notin> Name ` set (videoFiles world1)"
    unfolding t' set_names by simp
  have enc: "encodable ?vs \<and> writeFails env0 = None"
    and pr: "map Progress (videoFiles world1) = [Finite 0, Finite 42.5, Finite 0]"
    and v1: "Viewed (videoFiles world1 ! 1) = True"
    and rd: "snd (handleUnview lib0 env0 world1 unviewIntro)
       = Redirect (Referer \<lparr>location = ''http://localhost:8080/watch/2'', query = []\<rparr>) 303"
    and nr: "referer (get ''/unview/1 - Intro.mp4'') = []"
    by code_simp+
  note T = unview_request [of 1 world1 unviewIntro lib0 env0 refererURL0]
  from T hyp enc have a: "Viewed (videoFiles (fst (handleUnview lib0 env0 world1 unviewIntro)) ! 1) = False
      \<and> map Progress (videoFiles (fst (handleUnview lib0 env0 world1 unviewIntro)))
          = map Progress (videoFiles world1)
      \<and> dataFile (fst (handleUnview lib0 env0 world1 unviewIntro)) = Inr (Encoded ?vs)"
    unfolding Let_def by blast
  note T' = unview_request [of 1 world1 "get ''/unview/9 - Missing.mp4''" lib0 env0 refererURL0]
  from T' hyp' have b: "handleUnview lib0 env0 world1 (get ''/unview/9 - Missing.mp4'') = (world1, NotFound)"
    by blast
  note T'' = unview_request [of 1 world1 "get ''/unview/1 - Intro.mp4''" lib0 env0 refererURL0]
  from T'' nr have c: "redirectAfterUnview lib0 (get ''/unview/1 - Intro.mp4'') = Redirect Home 303"
    by blast
  from a b c hyp v1 rd show ?thesis unfolding pr by simp
qed

text \<open>
  The theorem of C4 at \<open>/update-progress/1 - Intro.mp4/42.5\<close>, at an elapsed value that
  does not parse, and at a store file that is not JSON.
\<close>

theorem progress_update_witness:
  "loadVideoFiles lib0 (dataFile world0) (walk env0) = Inr (videoFiles world0)
   \<and> handleUpdateProgress lib0 env0 world0 (get ''/update-progress/1 - Intro.mp4/42.5'')
       = (world0\<lparr>dataFile := Inr (Encoded ((videoFiles world0)
                     [1 := (fresh ''lib'' ''1 - Intro.mp4'')\<lparr>Current := 1000, Progress := Finite 42.5\<rparr>]))\<rparr>,
          WriteHeader 200)
   \<and> handleUpdateProgress lib0 env0 world0 (get ''/update-progress/1 - Intro.mp4/notanumber'')
       = (world0\<lparr>logged := [''Invalid progress vaule'']\<rparr>, HttpError ''Invalid progress value'' 400)
   \<and> handleUpdateProgress lib0 env0 worldCorrupt (get ''/update-progress/1 - Intro.mp4/42.5'')
       = (worldCorrupt\<lparr>logged := [''Error loading video progress'']\<rparr>,
          HttpError ''Error loading video progress'' 500)"
proof -
  let ?r = "get ''/update-progress/1 - Intro.mp4/42.5''"
  let ?bad = "get ''/update-progress/1 - Intro.mp4/notanumber''"
  let ?vs = "(videoFiles world0)[1 := (videoFiles world0 ! 1)\<lparr>Current := now env0, Progress := Finite 42.5\<rparr>]"
  have parts: "Split (urlPath ?r) ''/'' = [[], ''update-progress'', ''1 - Intro.mp4'', ''42.5'']"
    and parts': "Split (urlPath ?bad) ''/'' = [[], ''update-progress'', ''1 - Intro.mp4'', ''notanumber'']"
    and pf: "ParseFloat lib0 ''42.5'' = Some (Finite 42.5)"
    and pf': "ParseFloat lib0 ''notanumber'' = None"
    and ld: "loadVideoFiles lib0 (dataFile world0) (walk env0) = Inr (videoFiles world0)"
    and ld': "loadVideoFiles lib0 (dataFile worldCorrupt) (walk env0) = Inl SyntaxError"
    and sv: "saveViewedVideos ?vs env0 world0 = world0\<lparr>dataFile := Inr (Encoded ?vs)\<rparr>"
    and ev: "?vs = (videoFiles world0)[1 := (fresh ''lib'' ''1 - Intro.mp4'')\<lparr>Current := 1000, Progress := Finite 42.5\<rparr>]"
    and l0: "logged world0 = []" and l1: "logged worldCorrupt = []"
    by code_simp+
  have hyp: "ParseFloat lib0 (last (Split (urlPath ?r) ''/'')) = Some (Finite 42.5)
       \<and> loadVideoFiles lib0 (dataFile world0) (walk env0) = Inr (videoFiles world0)
       \<and> 2 \<le> length (Split (urlPath ?r) ''/'')
       \<and> 1 < length (videoFiles world0)
       \<and> Name (videoFiles world0 ! 1) = Split (urlPath ?r) ''/'' ! (length (Split (urlPath ?r) ''/'') - 2)
       \<and> (\<forall>j<1. Name (videoFiles world0 ! j) \<noteq> Split (urlPath ?r) ''/'' ! (length (Split (urlPath ?r) ''/'') - 2))"
    unfolding parts using pf ld by (simp add: world0_def fresh_def)
  from progress_update [of lib0 ?r env0 world0 "Finite 42.5" SyntaxError "videoFiles world0" 1] hyp
  have "handleUpdateProgress lib0 env0 world0 ?r = (saveViewedVideos ?vs env0 world0, WriteHeader 200)"
    unfolding Let_def by blast
  then have a: "handleUpdateProgress lib0 env0 world0 ?r
       = (world0\<lparr>dataFile := Inr (Encoded ?vs)\<rparr>, WriteHeader 200)"
    unfolding sv .
  have "ParseFloat lib0 (last (Split (urlPath ?bad) ''/'')) = None"
    unfolding parts' using pf' by simp
  with progress_update [of lib0 ?bad env0 world0 "Finite 42.5" SyntaxError "videoFiles world0" 1]
  have b: "handleUpdateProgress lib0 env0 world0 ?bad
       = (world0\<lparr>logged := logged world0 @ [''Invalid progress vaule'']\<rparr>,
          HttpError ''Invalid progress value'' 400)"
    by blast
  have "ParseFloat lib0 (last (Split (urlPath ?r) ''/'')) = Some (Finite 42.5)
       \<and> loadVideoFiles lib0 (dataFile worldCorrupt) (walk env0) = Inl SyntaxError"
    unfolding parts using pf ld' by simp
  with progress_update [of lib0 ?r env0 worldCorrupt "Finite 42.5" SyntaxError "videoFiles world0" 1]
  have c: "handleUpdateProgress lib0 env0 worldCorrupt ?r
       = (worldCorrupt\<lparr>logged := logged worldCorrupt @ [''Error loading video progress'']\<rparr>,
          HttpError ''Error loading video progress'' 500)"
    by blast
  from a b c ld show ?thesis unfolding ev l0 l1 by simp
qed


text \<open>
  The theorem of C9 at a session that marks the viewed entry again, updates its
  progress, unviews another entry and serves the video and the listing.
\<close>

theorem viewed_cleared_by_unview_only_witness:
  "Viewed (videoFiles world1 ! 1)
   \<and> Name (videoFiles world1 ! 1) = ''1 - Intro.mp4''
   \<and> Viewed (videoFiles (run lib0 session world1) ! 1)
   \<and> map Name (videoFiles (run lib0 session world1)) = [''bad_name.mp4'', ''1 - Intro.mp4'', ''2 - Body.mp4'']
   \<and> videoFiles (fst (handleUpdateProgress lib0 env0 world1 (get ''/update-progress/1 - Intro.mp4/0'')))
       = videoFiles world1"
proof -
  have names: "map Name (videoFiles world1) = [''bad_name.mp4'', ''1 - Intro.mp4'', ''2 - Body.mp4'']"
    and n1: "Name (videoFiles world1 ! 1) = ''1 - Intro.mp4''"
    and len: "1 < length (videoFiles world1)" and v: "Viewed (videoFiles world1 ! 1)"
    by (simp_all add: world1_def fresh_def)
  have "list_all (\<lambda>(e, r). \<not> (hasPrefix (urlPath r) ''/unview/''
             \<and> TrimPrefix (urlPath r) ''/unview/'' = ''1 - Intro.mp4'')) session"
    by code_simp
  then have hyp: "\<forall>(e, r) \<in> set session. \<not> (hasPrefix (urlPath r) ''/unview/''
             \<and> TrimPrefix (urlPath r) ''/unview/'' = Name (videoFiles world1 ! 1))"
    unfolding n1 by (simp add: list_all_iff)
  from viewed_cleared_by_unview_only [OF len v hyp, of lib0 env0 "get ''/update-progress/1 - Intro.mp4/0''"]
  show ?thesis using names n1 v by simp
qed

end
